theory Spec2Isabelle
  imports Main "HOL-Library.Word"
begin

unbundle bit_operations_syntax

section \<open>Data model\<close>

text \<open>
  The repository holds two near-identical revisions of one Go package,
  \<^verbatim>\<open>inotify.go\<close> and \<^verbatim>\<open>inotify_linux.go\<close>.  \<^verbatim>\<open>GetEventName\<close>,
  \<^verbatim>\<open>forwardBuffer\<close>, \<^verbatim>\<open>Close\<close> and the locked section of \<^verbatim>\<open>epollWait\<close> are the
  same text in both; \<^verbatim>\<open>AddWatch\<close> differs and is embedded twice.
\<close>

type_synonym u32 = "32 word"
type_synonym byte = "8 word"

text \<open>
  A Go \<^verbatim>\<open>error\<close>: either one made by \<^verbatim>\<open>errors.New\<close> (its message) or an
  \<^verbatim>\<open>errno\<close> handed back by a system call.
\<close>

datatype error = New string | Errno nat

text \<open>The two run-time panics the embedded code can raise.\<close>

datatype panic = NilPointerDereference | SliceBoundsOutOfRange

text \<open>System calls with an effect on the handles, in the order they are issued.\<close>

datatype syscall = Sys_Close int | Sys_InotifyRmWatch int u32

text \<open>
  \<^verbatim>\<open>type WatchSingle struct\<close>.  The back-reference \<^verbatim>\<open>watch *Watcher\<close> is either nil
  or the Watcher that registered the entry; the Watcher is passed explicitly to
  every operation, so the field only records whether the pointer is non-nil.
  The field \<^verbatim>\<open>remove\<close> is spelt \<open>remove'\<close>.
\<close>

record WatchSingle =
  path :: string
  isDir :: bool
  watchId :: u32
  flags :: u32
  watch :: bool
  remove' :: bool
  FileName :: string
  Mask :: u32

text \<open>
  \<^verbatim>\<open>type Watcher struct\<close>, without the mutex and the condition variable.
  \<^verbatim>\<open>watchMap\<close> maps an identifier to a pointer; \<^verbatim>\<open>AddWatch\<close> allocates a fresh
  \<^verbatim>\<open>WatchSingle\<close> for each new key and stores it under that key only, so no two
  keys alias and the map is embedded as a map to values.  \<^verbatim>\<open>eventBuffer\<close> is
  the array \<^verbatim>\<open>[syscall.SizeofInotifyEvent*25]byte\<close>, a list of \<open>capacity\<close>
  bytes.
\<close>

record Watcher =
  inotifyFD :: int
  epollFD :: int
  watchMap :: "u32 \<rightharpoonup> WatchSingle"
  eventBuffer :: "byte list"
  bufferItem :: u32
  wait :: bool
  closes :: bool

subsection \<open>Constants of package syscall (linux)\<close>

definition SizeofInotifyEvent :: nat where "SizeofInotifyEvent = 16"

definition MAX_ITEM :: nat where "MAX_ITEM = SizeofInotifyEvent * 20"

definition capacity :: nat where "capacity = SizeofInotifyEvent * 25"

definition IN_MODIFY :: u32 where "IN_MODIFY = 0x2"
definition IN_ATTRIB :: u32 where "IN_ATTRIB = 0x4"
definition IN_CLOSE_WRITE :: u32 where "IN_CLOSE_WRITE = 0x8"
definition IN_CLOSE_NOWRITE :: u32 where "IN_CLOSE_NOWRITE = 0x10"
definition IN_CLOSE :: u32 where "IN_CLOSE = 0x18"
definition IN_OPEN :: u32 where "IN_OPEN = 0x20"
definition IN_MOVED_FROM :: u32 where "IN_MOVED_FROM = 0x40"
definition IN_MOVED_TO :: u32 where "IN_MOVED_TO = 0x80"
definition IN_MOVE :: u32 where "IN_MOVE = 0xc0"
definition IN_CREATE :: u32 where "IN_CREATE = 0x100"
definition IN_DELETE :: u32 where "IN_DELETE = 0x200"
definition IN_DELETE_SELF :: u32 where "IN_DELETE_SELF = 0x400"
definition IN_MOVE_SELF :: u32 where "IN_MOVE_SELF = 0x800"
definition IN_IGNORED :: u32 where "IN_IGNORED = 0x8000"
definition IN_DONT_FOLLOW :: u32 where "IN_DONT_FOLLOW = 0x2000000"
definition IN_MASK_ADD :: u32 where "IN_MASK_ADD = 0x20000000"

section \<open>GetEventName\<close>

text \<open>
  \<^verbatim>\<open>ws.watch.watchMap[ws.watchId].remove = true\<close>: indexing the map at a missing
  key yields the nil pointer, and the assignment through it panics.
\<close>

definition markRemove :: "Watcher \<Rightarrow> u32 \<Rightarrow> panic + Watcher" where
  "markRemove w i =
     (case watchMap w i of
        None \<Rightarrow> Inl NilPointerDereference
      | Some e \<Rightarrow> Inr (w\<lparr>watchMap := (watchMap w)(i \<mapsto> e\<lparr>remove' := True\<rparr>)\<rparr>))"

text \<open>
  \<^verbatim>\<open>func (ws WatchSingle) GetEventName() string\<close>.  The receiver is a copy of an
  entry; \<open>w\<close> is the Watcher its back-reference points to when non-nil.  The
  result is the label, the Watcher afterwards and the system calls issued.
\<close>

definition GetEventName ::
  "WatchSingle \<Rightarrow> Watcher \<Rightarrow> panic + (string \<times> Watcher \<times> syscall list)" where
  "GetEventName ws w =
    (if Mask ws AND IN_DELETE_SELF = IN_DELETE_SELF then
       (if watch ws then
          (case markRemove w (watchId ws) of
             Inl p \<Rightarrow> Inl p
           | Inr w' \<Rightarrow> Inr (''DELETE_SELF'', w', []))
        else Inr (''DELETE_SELF'', w, []))
     else if Mask ws AND IN_MOVE_SELF = IN_MOVE_SELF then
       (if watch ws then
          (case markRemove w (watchId ws) of
             Inl p \<Rightarrow> Inl p
           | Inr w' \<Rightarrow>
               Inr (''MOVE_SELF'', w', [Sys_InotifyRmWatch (inotifyFD w') (watchId ws)]))
        else Inr (''MOVE_SELF'', w, []))
     else if Mask ws AND IN_CREATE = IN_CREATE then Inr (''CREATE'', w, [])
     else if Mask ws AND IN_DELETE = IN_DELETE then Inr (''DELETE'', w, [])
     else if Mask ws AND IN_OPEN = IN_OPEN then Inr (''OPEN'', w, [])
     else if Mask ws AND IN_CLOSE = IN_CLOSE then Inr (''CLOSE'', w, [])
     else if Mask ws AND IN_CLOSE_WRITE = IN_CLOSE_WRITE then Inr (''CLOSE_WRITE'', w, [])
     else if Mask ws AND IN_CLOSE_NOWRITE = IN_CLOSE_NOWRITE then Inr (''CLOSE_NOWRITE'', w, [])
     else if Mask ws AND IN_MOVE = IN_MOVE then Inr (''MOVE'', w, [])
     else if Mask ws AND IN_MOVED_FROM = IN_MOVED_FROM then Inr (''MOVED_FROM'', w, [])
     else if Mask ws AND IN_MOVED_TO = IN_MOVED_TO then Inr (''MOVED_TO'', w, [])
     else if Mask ws AND IN_MODIFY = IN_MODIFY then Inr (''MODIFY'', w, [])
     else if Mask ws AND IN_ATTRIB = IN_ATTRIB then Inr (''ATTRIB'', w, [])
     else if Mask ws AND IN_IGNORED = IN_IGNORED then
       (if watch ws then
          (case watchMap w (watchId ws) of
             None \<Rightarrow> Inl NilPointerDereference
           | Some e \<Rightarrow>
               if remove' e
               then Inr (''REMOVE'', w\<lparr>watchMap := (watchMap w)(watchId ws := None)\<rparr>, [])
               else Inr (''REMOVE'', w, []))
        else Inr (''REMOVE'', w, []))
     else Inr (''ERROR'', w, []))"

section \<open>The event buffer\<close>

text \<open>
  \<^verbatim>\<open>(*syscall.InotifyEvent)(unsafe.Pointer(&w.eventBuffer[0]))\<close> reads the header
  in place: \<^verbatim>\<open>Wd int32\<close>, \<^verbatim>\<open>Mask\<close>, \<^verbatim>\<open>Cookie\<close>, \<^verbatim>\<open>Len uint32\<close> at byte offsets
  0, 4, 8 and 12, each in the byte order of the machine.  The embedding fixes
  little-endian order (amd64, arm64); \<open>put_u32\<close> is the same order as the
  kernel writes it.  \<^verbatim>\<open>uint32(event.Wd)\<close> keeps the 32 bits of \<^verbatim>\<open>Wd\<close>.
\<close>

definition get_u32 :: "byte list \<Rightarrow> nat \<Rightarrow> u32" where
  "get_u32 bs i =
     ucast (bs ! i) OR push_bit 8 (ucast (bs ! (i + 1))) OR
     push_bit 16 (ucast (bs ! (i + 2))) OR push_bit 24 (ucast (bs ! (i + 3)))"

definition put_u32 :: "u32 \<Rightarrow> byte list" where
  "put_u32 x = [ucast x, ucast (drop_bit 8 x), ucast (drop_bit 16 x), ucast (drop_bit 24 x)]"

definition event_Wd :: "byte list \<Rightarrow> u32" where "event_Wd buf = get_u32 buf 0"
definition event_Mask :: "byte list \<Rightarrow> u32" where "event_Mask buf = get_u32 buf 4"
definition event_Cookie :: "byte list \<Rightarrow> u32" where "event_Cookie buf = get_u32 buf 8"
definition event_Len :: "byte list \<Rightarrow> u32" where "event_Len buf = get_u32 buf 12"

text \<open>Go's conversion \<^verbatim>\<open>string(b)\<close> of a byte slice keeps every byte, NUL included.\<close>

definition string_of_bytes :: "byte list \<Rightarrow> string" where
  "string_of_bytes bs = map (\<lambda>b. char_of (unat b)) bs"

text \<open>
  The slice expression \<^verbatim>\<open>a[lo:hi]\<close> on an array panics unless
  \<^verbatim>\<open>0 <= lo <= hi <= len(a)\<close>; \<^verbatim>\<open>a[lo:]\<close> is \<^verbatim>\<open>a[lo:len(a)]\<close>.
\<close>

definition slice :: "byte list \<Rightarrow> nat \<Rightarrow> nat \<Rightarrow> byte list option" where
  "slice a lo hi = (if lo \<le> hi \<and> hi \<le> length a then Some (take (hi - lo) (drop lo a)) else None)"

text \<open>
  \<^verbatim>\<open>copy(a[0:], src)\<close>: the first \<^verbatim>\<open>min(len(a), len(src))\<close> bytes of \<open>a\<close> become
  those of \<open>src\<close> (overlap is handled as by memmove), the rest of \<open>a\<close> stays.
\<close>

definition copy :: "byte list \<Rightarrow> byte list \<Rightarrow> byte list" where
  "copy a src = take (length a) src @ drop (length src) a"

text \<open>
  \<^verbatim>\<open>func (w *Watcher) forwardBuffer() *WatchSingle\<close>.  The result is the Watcher
  afterwards and the entry pointed to by the returned pointer (\<open>None\<close> for nil);
  a panic aborts the call.
\<close>

definition forwardBuffer :: "Watcher \<Rightarrow> panic + (Watcher \<times> WatchSingle option)" where
  "forwardBuffer w =
    (let buf = eventBuffer w; offset = (word_of_nat SizeofInotifyEvent :: u32) in
     case watchMap w (event_Wd buf) of
       Some ws \<Rightarrow>
         (let ws1 = ws\<lparr>Mask := event_Mask buf, FileName := path ws\<rparr> in
          case (if 0 < event_Len buf
                then (case slice buf (unat offset) (unat (offset + event_Len buf)) of
                        None \<Rightarrow> None
                      | Some name \<Rightarrow>
                          Some (ws1\<lparr>FileName := FileName ws1 @ string_of_bytes name\<rparr>,
                                offset + event_Len buf))
                else Some (ws1, offset)) of
            None \<Rightarrow> Inl SliceBoundsOutOfRange
          | Some (ws2, offset') \<Rightarrow>
              (case slice buf (unat offset') (length buf) of
                 None \<Rightarrow> Inl SliceBoundsOutOfRange
               | Some src \<Rightarrow>
                   Inr (w\<lparr>watchMap := (watchMap w)(event_Wd buf \<mapsto> ws2),
                          eventBuffer := copy buf src,
                          bufferItem := bufferItem w - offset'\<rparr>, Some ws2)))
     | None \<Rightarrow>
         (case slice buf (unat (bufferItem w)) (length buf) of
            None \<Rightarrow> Inl SliceBoundsOutOfRange
          | Some src \<Rightarrow> Inr (w\<lparr>eventBuffer := copy buf src, bufferItem := 0\<rparr>, None)))"

section \<open>WaitEvent\<close>

text \<open>
  \<^verbatim>\<open>func (w *Watcher) WaitEvent() (WatchSingle, error)\<close>, under the mutex.
  \<^verbatim>\<open>w.cond.Wait()\<close> gives the lock away and returns with the Watcher in whatever
  state the other goroutines left it: that state is the argument \<open>woken\<close>.
  Starting the reactor goroutine (\<^verbatim>\<open>inotify.go\<close> only) is not part of the
  embedding.
\<close>

definition WaitEvent :: "Watcher \<Rightarrow> Watcher \<Rightarrow> panic + (Watcher \<times> (error + WatchSingle))" where
  "WaitEvent w woken =
    (if bufferItem w = 0 \<and> closes w then Inr (w, Inl (New ''The Watcher is closes''))
     else
       let w1 = (if bufferItem w = 0 then woken\<lparr>wait := False\<rparr> else w) in
       if (word_of_nat SizeofInotifyEvent :: u32) > bufferItem w1
       then Inr (w1, Inl (New ''The event bufferItem Cross Lines''))
       else
         (case forwardBuffer w1 of
            Inl p \<Rightarrow> Inl p
          | Inr (w2, Some ws) \<Rightarrow> Inr (w2, Inr ws)
          | Inr (w2, None) \<Rightarrow>
              Inr (w2, Inl (New ''The monitored directory or file has been deleted or renamed''))))"

section \<open>The reactor\<close>

definition EPOLLIN :: u32 where "EPOLLIN = 0x1"
definition EPOLLERR :: u32 where "EPOLLERR = 0x8"
definition EPOLLHUP :: u32 where "EPOLLHUP = 0x10"

text \<open>
  \<^verbatim>\<open>syscall.Read(fd, p)\<close>.  The kernel side is a function from the number of
  bytes asked for to an error or the bytes it hands over; the call stores at
  most \<^verbatim>\<open>len(p)\<close> of them at the front of \<open>p\<close> and returns how many.
\<close>

definition Read :: "(nat \<Rightarrow> error + byte list) \<Rightarrow> nat \<Rightarrow> error + byte list" where
  "Read src k = (case src k of Inl e \<Rightarrow> Inl e | Inr bs \<Rightarrow> Inr (take k bs))"

text \<open>
  The body of the \<^verbatim>\<open>for _, e := range eventSlice[:n]\<close> loop of \<^verbatim>\<open>epollWait\<close> for
  one ready event \<open>(Events, Fd)\<close>.  \<^verbatim>\<open>w.cond.Signal()\<close> changes no field.
\<close>

definition epollWait_event ::
  "Watcher \<Rightarrow> u32 \<times> u32 \<Rightarrow> (nat \<Rightarrow> error + byte list) \<Rightarrow> panic + Watcher" where
  "epollWait_event w e src =
    (if fst e AND EPOLLHUP \<noteq> 0 \<or> fst e AND EPOLLERR \<noteq> 0 \<or> fst e AND EPOLLIN \<noteq> 0 then
       if snd e \<noteq> word_of_int (inotifyFD w) then Inr w
       else
         (case (if bufferItem w > word_of_nat MAX_ITEM
                then map_sum id fst (forwardBuffer w) else Inr w) of
            Inl p \<Rightarrow> Inl p
          | Inr w1 \<Rightarrow>
              (case slice (eventBuffer w1) (unat (bufferItem w1)) (length (eventBuffer w1)) of
                 None \<Rightarrow> Inl SliceBoundsOutOfRange
               | Some p \<Rightarrow>
                   (case Read src (length p) of
                      Inl err \<Rightarrow> Inr w1
                    | Inr bs \<Rightarrow>
                        Inr (w1\<lparr>eventBuffer :=
                                  take (unat (bufferItem w1)) (eventBuffer w1) @ copy p bs,
                                bufferItem := bufferItem w1 + word_of_nat (length bs)\<rparr>))))
     else Inr w)"

section \<open>Close\<close>

text \<open>\<^verbatim>\<open>func (w *Watcher) Close()\<close>: the Watcher afterwards and the calls issued.\<close>

definition Close :: "Watcher \<Rightarrow> Watcher \<times> syscall list" where
  "Close w =
     (w, (if inotifyFD w \<noteq> - 1 then [Sys_Close (inotifyFD w)] else []) @
         (if epollFD w \<noteq> - 1 then [Sys_Close (epollFD w)] else []))"

section \<open>AddWatch\<close>

text \<open>
  What the operating system answers during one call: \<^verbatim>\<open>filepath.Abs\<close>,
  \<^verbatim>\<open>os.Stat\<close> (nil, or a \<^verbatim>\<open>FileInfo\<close> of which only \<^verbatim>\<open>IsDir()\<close> is read) and
  \<^verbatim>\<open>syscall.InotifyAddWatch\<close> (descriptor, path, mask).
\<close>

record OS =
  filepath_Abs :: "string \<Rightarrow> error + string"
  os_Stat :: "string \<Rightarrow> bool option"
  syscall_InotifyAddWatch :: "int \<Rightarrow> string \<Rightarrow> u32 \<Rightarrow> error + int"

definition PathSeparator :: string where "PathSeparator = ''/''"

text \<open>
  The literal \<^verbatim>\<open>&WatchSingle{watch: w, path: path, isDir: info.IsDir(), watchId:
  uint32(wd), flags: flags}\<close> followed by \<^verbatim>\<open>ws.path += string(os.PathSeparator)\<close>
  for a directory.
\<close>

definition newWatchSingle :: "string \<Rightarrow> bool \<Rightarrow> u32 \<Rightarrow> u32 \<Rightarrow> WatchSingle" where
  "newWatchSingle p d k fl =
     \<lparr>path = (if d then p @ PathSeparator else p), isDir = d, watchId = k, flags = fl,
      watch = True, remove' = False, FileName = [], Mask = 0\<rparr>"

text \<open>
  \<^verbatim>\<open>func (w *Watcher) AddWatch(path string, flags uint32) error\<close> of
  \<^verbatim>\<open>inotify_linux.go\<close>.  \<^verbatim>\<open>ws.flags |= flags\<close> goes through the pointer stored in
  the map.
\<close>

definition AddWatch :: "OS \<Rightarrow> Watcher \<Rightarrow> string \<Rightarrow> u32 \<Rightarrow> Watcher \<times> error option" where
  "AddWatch os w p fl =
    (case filepath_Abs os p of
       Inl err \<Rightarrow> (w, Some err)
     | Inr ap \<Rightarrow>
         (case os_Stat os ap of
            None \<Rightarrow> (w, Some (New ''File or Dir not''))
          | Some d \<Rightarrow>
              (case syscall_InotifyAddWatch os (inotifyFD w) ap
                      (fl OR IN_DONT_FOLLOW OR IN_MASK_ADD) of
                 Inl err \<Rightarrow> (w, Some err)
               | Inr wd \<Rightarrow>
                   (let k = (word_of_int wd :: u32);
                        ws = (case watchMap w k of
                                Some ws \<Rightarrow> ws
                              | None \<Rightarrow> newWatchSingle ap d k fl)
                    in (w\<lparr>watchMap := (watchMap w)(k \<mapsto> ws\<lparr>flags := flags ws OR fl\<rparr>)\<rparr>,
                        None)))))"

text \<open>
  \<^verbatim>\<open>AddWatch\<close> of \<^verbatim>\<open>inotify.go\<close>: the path is used as given and \<^verbatim>\<open>os.Stat\<close> is
  called only for a new identifier; \<^verbatim>\<open>info.IsDir()\<close> on a nil \<^verbatim>\<open>info\<close> panics.
\<close>

definition AddWatch_early ::
  "OS \<Rightarrow> Watcher \<Rightarrow> string \<Rightarrow> u32 \<Rightarrow> panic + (Watcher \<times> error option)" where
  "AddWatch_early os w p fl =
    (case syscall_InotifyAddWatch os (inotifyFD w) p (fl OR IN_DONT_FOLLOW OR IN_MASK_ADD) of
       Inl err \<Rightarrow> Inr (w, Some err)
     | Inr wd \<Rightarrow>
         (let k = (word_of_int wd :: u32) in
          case (case watchMap w k of
                  Some ws \<Rightarrow> Some ws
                | None \<Rightarrow>
                    (case os_Stat os p of
                       None \<Rightarrow> None
                     | Some d \<Rightarrow> Some (newWatchSingle p d k fl))) of
            None \<Rightarrow> Inl NilPointerDereference
          | Some ws \<Rightarrow>
              Inr (w\<lparr>watchMap := (watchMap w)(k \<mapsto> ws\<lparr>flags := flags ws OR fl\<rparr>)\<rparr>, None)))"

text \<open>Successive calls on one path, each with its own flags and its own answers.\<close>

fun AddWatch_all :: "Watcher \<Rightarrow> string \<Rightarrow> (OS \<times> u32) list \<Rightarrow> Watcher \<times> error option list" where
  "AddWatch_all w p [] = (w, [])"
| "AddWatch_all w p ((os, fl) # cs) =
     (case AddWatch os w p fl of
        (w1, r) \<Rightarrow> (case AddWatch_all w1 p cs of (w2, rs) \<Rightarrow> (w2, r # rs)))"

fun AddWatch_early_all ::
  "Watcher \<Rightarrow> string \<Rightarrow> (OS \<times> u32) list \<Rightarrow> panic + (Watcher \<times> error option list)" where
  "AddWatch_early_all w p [] = Inr (w, [])"
| "AddWatch_early_all w p ((os, fl) # cs) =
     (case AddWatch_early os w p fl of
        Inl e \<Rightarrow> Inl e
      | Inr (w1, r) \<Rightarrow>
          (case AddWatch_early_all w1 p cs of
             Inl e \<Rightarrow> Inl e
           | Inr (w2, rs) \<Rightarrow> Inr (w2, r # rs)))"

section \<open>NewWatcher\<close>

text \<open>
  \<^verbatim>\<open>func NewWatcher() (*Watcher, error)\<close>, given what \<^verbatim>\<open>InotifyInit1\<close>,
  \<^verbatim>\<open>EpollCreate1\<close> and \<^verbatim>\<open>EpollCtl\<close> answer.  Starting the reactor goroutine
  (\<^verbatim>\<open>inotify_linux.go\<close> only) is not part of the embedding.
\<close>

definition NewWatcher :: "int \<Rightarrow> int \<Rightarrow> error option \<Rightarrow> (error + Watcher) \<times> syscall list" where
  "NewWatcher ifd efd ctl =
    (if ifd = - 1 then (Inl (New ''The inotify cannot create''), [])
     else if efd = - 1 then (Inl (New ''The epoll cannot create''), [Sys_Close ifd])
     else
       (case ctl of
          Some err \<Rightarrow> (Inl err, [Sys_Close ifd, Sys_Close efd])
        | None \<Rightarrow>
            (Inr \<lparr>inotifyFD = ifd, epollFD = efd, watchMap = Map.empty,
                  eventBuffer = replicate capacity 0, bufferItem = 0,
                  wait = False, closes = False\<rparr>, [])))"

section \<open>Specification-side definitions\<close>

subsection \<open>The classification order\<close>

text \<open>
  The classification order as the specification words it: self-delete, self-move,
  create, delete, open, close, close-write, close-no-write, move, moved-from,
  moved-to, modify, attribute-change, terminal-ignored, else the unknown label.
  A constant matches a mask when all its bits are set in the mask.
\<close>

definition priority :: "(u32 \<times> string) list" where
  "priority =
    [(IN_DELETE_SELF, ''DELETE_SELF''), (IN_MOVE_SELF, ''MOVE_SELF''),
     (IN_CREATE, ''CREATE''), (IN_DELETE, ''DELETE''), (IN_OPEN, ''OPEN''),
     (IN_CLOSE, ''CLOSE''), (IN_CLOSE_WRITE, ''CLOSE_WRITE''),
     (IN_CLOSE_NOWRITE, ''CLOSE_NOWRITE''), (IN_MOVE, ''MOVE''),
     (IN_MOVED_FROM, ''MOVED_FROM''), (IN_MOVED_TO, ''MOVED_TO''),
     (IN_MODIFY, ''MODIFY''), (IN_ATTRIB, ''ATTRIB''), (IN_IGNORED, ''REMOVE'')]"

definition label_by_priority :: "u32 \<Rightarrow> string" where
  "label_by_priority m =
     (case find (\<lambda>(c, l). m AND c = c) priority of
        Some (c, l) \<Rightarrow> l
      | None \<Rightarrow> ''ERROR'')"

subsection \<open>Example Watchers and events\<close>

text \<open>A Watcher as \<^verbatim>\<open>NewWatcher\<close> returns it, on descriptors 3 and 4.\<close>

definition watcher34 :: Watcher where
  "watcher34 =
     \<lparr>inotifyFD = 3, epollFD = 4, watchMap = Map.empty,
      eventBuffer = replicate capacity 0, bufferItem = 0, wait = False, closes = False\<rparr>"

text \<open>The entry \<^verbatim>\<open>AddWatch\<close> makes for the directory \<^verbatim>\<open>/tmp/d\<close> under identifier 1.\<close>

definition entry1 :: WatchSingle where
  "entry1 = newWatchSingle ''/tmp/d'' True 1 (IN_CREATE OR IN_DELETE)"

definition watcher1 :: Watcher where
  "watcher1 = watcher34\<lparr>watchMap := [1 \<mapsto> entry1]\<rparr>"

text \<open>The same Watcher once the entry of identifier 1 is pending removal.\<close>

definition watcher1_pending :: Watcher where
  "watcher1_pending = watcher1\<lparr>watchMap := [1 \<mapsto> entry1\<lparr>remove' := True\<rparr>]\<rparr>"

text \<open>Events as \<^verbatim>\<open>WaitEvent\<close> hands them out for the entry of identifier 1.\<close>

definition self_move_event :: WatchSingle where
  "self_move_event = entry1\<lparr>FileName := ''/tmp/d/'', Mask := IN_MOVE_SELF\<rparr>"

definition ignored_event :: WatchSingle where
  "ignored_event = entry1\<lparr>FileName := ''/tmp/d/'', Mask := IN_IGNORED\<rparr>"

definition self_both_event :: WatchSingle where
  "self_both_event = entry1\<lparr>FileName := ''/tmp/d/'', Mask := IN_DELETE_SELF OR IN_MOVE_SELF\<rparr>"

subsection \<open>Records of the notification stream\<close>

text \<open>
  A record of the kernel's notification stream: the four header fields of
  \<^verbatim>\<open>syscall.InotifyEvent\<close>, \<^verbatim>\<open>Len\<close> being the length of the name field, and
  the name field itself (the child name with its NUL padding).
\<close>

record InotifyEvent =
  ev_Wd :: u32
  ev_Mask :: u32
  ev_Cookie :: u32
  ev_Name :: "byte list"

definition encode :: "InotifyEvent \<Rightarrow> byte list" where
  "encode r =
     put_u32 (ev_Wd r) @ put_u32 (ev_Mask r) @ put_u32 (ev_Cookie r) @
     put_u32 (word_of_nat (length (ev_Name r))) @ ev_Name r"

text \<open>
  The event a record stands for in a registry: the entry of its identifier with
  the record's mask, and the stored path followed by the record's name field.
\<close>

definition event_of :: "(u32 \<rightharpoonup> WatchSingle) \<Rightarrow> InotifyEvent \<Rightarrow> WatchSingle option" where
  "event_of reg r =
     (case reg (ev_Wd r) of
        None \<Rightarrow> None
      | Some e \<Rightarrow> Some (e\<lparr>Mask := ev_Mask r, FileName := path e @ string_of_bytes (ev_Name r)\<rparr>))"

text \<open>\<open>n\<close> successive calls of \<^verbatim>\<open>forwardBuffer\<close>, collecting what each returns.\<close>

fun forwardBuffer_times :: "nat \<Rightarrow> Watcher \<Rightarrow> panic + (Watcher \<times> WatchSingle option list)" where
  "forwardBuffer_times 0 w = Inr (w, [])"
| "forwardBuffer_times (Suc n) w =
     (case forwardBuffer w of
        Inl p \<Rightarrow> Inl p
      | Inr (w1, r) \<Rightarrow>
          (case forwardBuffer_times n w1 of
             Inl p \<Rightarrow> Inl p
           | Inr (w2, rs) \<Rightarrow> Inr (w2, r # rs)))"

text \<open>The error \<^verbatim>\<open>WaitEvent\<close> returns when the parser hands back nil.\<close>

definition err_untracked :: error where
  "err_untracked = New ''The monitored directory or file has been deleted or renamed''"

subsection \<open>Example records and buffers\<close>

text \<open>
  The name field the kernel writes for a child \<^verbatim>\<open>a.txt\<close>: the name, its
  terminating NUL and padding up to a multiple of the header size.
\<close>

definition a_txt :: "byte list" where
  "a_txt = [0x61, 0x2e, 0x74, 0x78, 0x74] @ replicate 11 0"

definition create_a_txt :: InotifyEvent where
  "create_a_txt = \<lparr>ev_Wd = 1, ev_Mask = IN_CREATE, ev_Cookie = 0, ev_Name = a_txt\<rparr>"

definition delete_a_txt :: InotifyEvent where
  "delete_a_txt = \<lparr>ev_Wd = 1, ev_Mask = IN_DELETE, ev_Cookie = 0, ev_Name = a_txt\<rparr>"

text \<open>The Watcher of \<^verbatim>\<open>/tmp/d\<close> after the kernel reported both events in one read.\<close>

definition watcher1_two_records :: Watcher where
  "watcher1_two_records =
     watcher1\<lparr>eventBuffer := encode create_a_txt @ encode delete_a_txt @ replicate 336 0,
              bufferItem := 64\<rparr>"

text \<open>The two events these records stand for, as the code builds them.\<close>

definition create_event :: WatchSingle where
  "create_event = entry1\<lparr>Mask := IN_CREATE,
     FileName := ''/tmp/d/a.txt'' @ replicate 11 (CHR 0x00)\<rparr>"

definition delete_event :: WatchSingle where
  "delete_event = entry1\<lparr>Mask := IN_DELETE,
     FileName := ''/tmp/d/a.txt'' @ replicate 11 (CHR 0x00)\<rparr>"

text \<open>A Watcher that holds two records for an identifier it no longer tracks.\<close>

definition watcher_untracked :: Watcher where
  "watcher_untracked = watcher1_two_records\<lparr>watchMap := Map.empty\<rparr>"

text \<open>
  Two records with long child names (239 and 255 characters), and the Watcher of
  \<^verbatim>\<open>/tmp/d\<close> holding the first of them: 256 bytes buffered, 144 free.
\<close>

definition long_create :: InotifyEvent where
  "long_create = \<lparr>ev_Wd = 1, ev_Mask = IN_CREATE, ev_Cookie = 0,
     ev_Name = replicate 239 0x61 @ [0]\<rparr>"

definition long_delete :: InotifyEvent where
  "long_delete = \<lparr>ev_Wd = 1, ev_Mask = IN_DELETE, ev_Cookie = 0,
     ev_Name = replicate 255 0x61 @ [0]\<rparr>"

definition watcher1_near_full :: Watcher where
  "watcher1_near_full =
     watcher1\<lparr>eventBuffer := encode long_create @ replicate 144 0, bufferItem := 256\<rparr>"

subsection \<open>The reactor's append\<close>

text \<open>
  The reactor's append, as the specification words it: what one read hands over
  when \<open>k\<close> bytes are free (nothing on an error, never more than \<open>k\<close> bytes),
  and the Watcher with those bytes stored behind the buffered ones.
\<close>

definition delivered :: "(nat \<Rightarrow> error + byte list) \<Rightarrow> nat \<Rightarrow> byte list" where
  "delivered src k = (case src k of Inl e \<Rightarrow> [] | Inr bs \<Rightarrow> take k bs)"

definition appended :: "Watcher \<Rightarrow> byte list \<Rightarrow> Watcher" where
  "appended w bs =
     w\<lparr>eventBuffer :=
         take (unat (bufferItem w)) (eventBuffer w) @ bs @
         drop (unat (bufferItem w) + length bs) (eventBuffer w),
       bufferItem := bufferItem w + word_of_nat (length bs)\<rparr>"

text \<open>The Watcher of \<^verbatim>\<open>/tmp/d\<close> with four records, 352 bytes, buffered.\<close>

definition watcher1_over :: Watcher where
  "watcher1_over =
     watcher1\<lparr>eventBuffer := encode long_create @ encode create_a_txt @ encode delete_a_txt @
                  encode create_a_txt @ replicate 48 0,
              bufferItem := 352\<rparr>"

subsection \<open>Registration\<close>

text \<open>
  Registration as the specification words it.  The union of the flags requested
  over a sequence of calls; a call that succeeds with identifier \<open>wd\<close> in either
  revision (for \<^verbatim>\<open>inotify.go\<close>: the kernel accepts the path as given and the
  path can be inspected); the Watcher with one entry stored; and the entry a
  sequence of calls leaves under the identifier: the one already there with the
  union merged into its flags, or a new one for the inspected path.
\<close>

definition flags_union :: "u32 list \<Rightarrow> u32" where
  "flags_union fls = foldr (OR) fls 0"

definition registers :: "OS \<Rightarrow> int \<Rightarrow> string \<Rightarrow> u32 \<Rightarrow> int \<Rightarrow> bool" where
  "registers os fd p fl wd =
     (case filepath_Abs os p of
        Inl err \<Rightarrow> False
      | Inr ap \<Rightarrow>
          (case os_Stat os ap of
             None \<Rightarrow> False
           | Some d \<Rightarrow>
               syscall_InotifyAddWatch os fd ap (fl OR IN_DONT_FOLLOW OR IN_MASK_ADD) = Inr wd))"

definition registers_early :: "OS \<Rightarrow> int \<Rightarrow> string \<Rightarrow> u32 \<Rightarrow> int \<Rightarrow> bool" where
  "registers_early os fd p fl wd =
     (syscall_InotifyAddWatch os fd p (fl OR IN_DONT_FOLLOW OR IN_MASK_ADD) = Inr wd \<and>
      os_Stat os p \<noteq> None)"

definition with_entry :: "Watcher \<Rightarrow> u32 \<Rightarrow> WatchSingle \<Rightarrow> Watcher" where
  "with_entry w k e = w\<lparr>watchMap := (watchMap w)(k \<mapsto> e)\<rparr>"

definition merged_entry ::
  "Watcher \<Rightarrow> u32 \<Rightarrow> u32 \<Rightarrow> (string \<times> bool) option \<Rightarrow> WatchSingle option" where
  "merged_entry w k u new =
     (case watchMap w k of
        Some e0 \<Rightarrow> Some (e0\<lparr>flags := flags e0 OR u\<rparr>)
      | None \<Rightarrow> (case new of None \<Rightarrow> None | Some (ap, d) \<Rightarrow> Some (newWatchSingle ap d k u)))"

definition stat_abs :: "OS \<Rightarrow> string \<Rightarrow> (string \<times> bool) option" where
  "stat_abs os p =
     (case filepath_Abs os p of
        Inl err \<Rightarrow> None
      | Inr ap \<Rightarrow> (case os_Stat os ap of None \<Rightarrow> None | Some d \<Rightarrow> Some (ap, d)))"

definition stat_given :: "OS \<Rightarrow> string \<Rightarrow> (string \<times> bool) option" where
  "stat_given os p = (case os_Stat os p of None \<Rightarrow> None | Some d \<Rightarrow> Some (p, d))"

text \<open>
  An operating system in which \<^verbatim>\<open>/tmp/d\<close> is the only path: a directory, watched
  under identifier 1.
\<close>

definition os_tmp :: OS where
  "os_tmp =
     \<lparr>filepath_Abs = (\<lambda>p. Inr p),
      os_Stat = (\<lambda>p. if p = ''/tmp/d'' then Some True else None),
      syscall_InotifyAddWatch = (\<lambda>fd p m. if p = ''/tmp/d'' then Inr 1 else Inl (Errno 2))\<rparr>"

subsection \<open>Reads on an inotify descriptor\<close>







section \<open>Properties of the classification\<close>

lemmas IN_defs = IN_MODIFY_def IN_ATTRIB_def IN_CLOSE_WRITE_def IN_CLOSE_NOWRITE_def
  IN_CLOSE_def IN_OPEN_def IN_MOVED_FROM_def IN_MOVED_TO_def IN_MOVE_def IN_CREATE_def
  IN_DELETE_def IN_DELETE_SELF_def IN_MOVE_SELF_def IN_IGNORED_def

text \<open>
  C3.  Whenever \<^verbatim>\<open>GetEventName\<close> returns, its label is the one of the first
  constant in the priority order all of whose bits are set in the mask, and
  \<^verbatim>\<open>ERROR\<close> when there is none; it returns whenever the back-reference is nil
  or the identifier is still registered.
\<close>

theorem GetEventName_priority:
  "(GetEventName ws w = Inr (l, w', tr) \<longrightarrow> l = label_by_priority (Mask ws)) \<and>
   (\<not> watch ws \<or> watchMap w (watchId ws) \<noteq> None \<longrightarrow>
      (\<exists>w' tr. GetEventName ws w = Inr (label_by_priority (Mask ws), w', tr)))"
  unfolding GetEventName_def label_by_priority_def priority_def markRemove_def
  by (auto split: if_splits option.splits sum.splits)

theorem GetEventName_priority_witness:
  "GetEventName (entry1\<lparr>Mask := IN_CLOSE_WRITE OR IN_MODIFY OR IN_IGNORED\<rparr>) watcher1
     = Inr (''CLOSE_WRITE'', watcher1, []) \<and>
   label_by_priority (IN_CLOSE_WRITE OR IN_MODIFY OR IN_IGNORED) = ''CLOSE_WRITE''"
  using GetEventName_priority
    [of "entry1\<lparr>Mask := IN_CLOSE_WRITE OR IN_MODIFY OR IN_IGNORED\<rparr>" watcher1
      "''CLOSE_WRITE''" watcher1 "[]"]
  by (simp add: GetEventName_def IN_defs watcher1_def entry1_def newWatchSingle_def)

subsection \<open>Side effects on the registry\<close>

lemma GetEventName_move_self:
  assumes "watch ev" and "watchMap w (watchId ev) = Some e"
    and "Mask ev AND IN_MOVE_SELF = IN_MOVE_SELF"
    and "Mask ev AND IN_DELETE_SELF \<noteq> IN_DELETE_SELF"
  shows "GetEventName ev w =
     Inr (''MOVE_SELF'', w\<lparr>watchMap := (watchMap w)(watchId ev \<mapsto> e\<lparr>remove' := True\<rparr>)\<rparr>,
          [Sys_InotifyRmWatch (inotifyFD w) (watchId ev)])"
  using assms by (simp add: GetEventName_def markRemove_def)

lemma GetEventName_ignored:
  assumes "watch ig" and "watchMap w (watchId ig) = Some e"
    and "label_by_priority (Mask ig) = ''REMOVE''"
  shows "GetEventName ig w =
     Inr (''REMOVE'',
          if remove' e then w\<lparr>watchMap := (watchMap w)(watchId ig := None)\<rparr> else w, [])"
  using assms unfolding GetEventName_def label_by_priority_def priority_def
  by (simp split: if_splits)

text \<open>
  C8, as the code has it.  An event with the self-move bit and without the
  self-delete bit, whose back-reference is set and whose identifier is
  registered, is labelled \<^verbatim>\<open>MOVE_SELF\<close>, marks the entry pending-removal and
  issues \<^verbatim>\<open>InotifyRmWatch\<close> for the identifier.  An event for the same identifier
  that is then classified terminal-ignored deletes the entry, so the identifier
  no longer resolves; on an entry that is not pending-removal the same
  classification leaves the registry as it is.
\<close>

theorem self_move_then_ignored:
  assumes "watch ev" and "watchMap w (watchId ev) = Some e"
    and "Mask ev AND IN_MOVE_SELF = IN_MOVE_SELF"
    and "Mask ev AND IN_DELETE_SELF \<noteq> IN_DELETE_SELF"
    and "watch ig" and "watchId ig = watchId ev"
    and "label_by_priority (Mask ig) = ''REMOVE''"
  shows "\<exists>w1 w2.
      GetEventName ev w =
        Inr (''MOVE_SELF'', w1, [Sys_InotifyRmWatch (inotifyFD w) (watchId ev)]) \<and>
      watchMap w1 = (watchMap w)(watchId ev \<mapsto> e\<lparr>remove' := True\<rparr>) \<and>
      GetEventName ig w1 = Inr (''REMOVE'', w2, []) \<and>
      watchMap w2 (watchId ev) = None \<and>
      watchMap w2 = (watchMap w)(watchId ev := None) \<and>
      (remove' e \<or> GetEventName ig w = Inr (''REMOVE'', w, []))"
proof -
  let ?w1 = "w\<lparr>watchMap := (watchMap w)(watchId ev \<mapsto> e\<lparr>remove' := True\<rparr>)\<rparr>"
  let ?w2 = "?w1\<lparr>watchMap := (watchMap ?w1)(watchId ig := None)\<rparr>"
  have 1: "GetEventName ev w =
      Inr (''MOVE_SELF'', ?w1, [Sys_InotifyRmWatch (inotifyFD w) (watchId ev)])"
    using assms(1-4) by (rule GetEventName_move_self)
  have "watchMap ?w1 (watchId ig) = Some (e\<lparr>remove' := True\<rparr>)"
    using assms(6) by simp
  from GetEventName_ignored [OF assms(5) this assms(7)]
  have 2: "GetEventName ig ?w1 = Inr (''REMOVE'', ?w2, [])" by simp
  have 3: "watchMap ?w2 = (watchMap w)(watchId ev := None)"
    using assms(6) by simp
  have 4: "remove' e \<or> GetEventName ig w = Inr (''REMOVE'', w, [])"
    using GetEventName_ignored [OF assms(5) _ assms(7), of w e] assms(2,6) by auto
  show ?thesis
    using 1 2 3 4 by (intro exI [of _ ?w1] exI [of _ ?w2]) simp
qed

theorem self_move_then_ignored_witness:
  "\<exists>w1 w2.
      GetEventName self_move_event watcher1 = Inr (''MOVE_SELF'', w1, [Sys_InotifyRmWatch 3 1]) \<and>
      watchMap w1 = [1 \<mapsto> entry1\<lparr>remove' := True\<rparr>] \<and>
      GetEventName ignored_event w1 = Inr (''REMOVE'', w2, []) \<and>
      watchMap w2 1 = None \<and>
      GetEventName ignored_event watcher1 = Inr (''REMOVE'', watcher1, [])"
proof -
  have a: "watch self_move_event" "watchMap watcher1 (watchId self_move_event) = Some entry1"
    "Mask self_move_event AND IN_MOVE_SELF = IN_MOVE_SELF"
    "Mask self_move_event AND IN_DELETE_SELF \<noteq> IN_DELETE_SELF"
    "watch ignored_event" "watchId ignored_event = watchId self_move_event"
    "label_by_priority (Mask ignored_event) = ''REMOVE''"
    by (simp_all add: self_move_event_def ignored_event_def entry1_def newWatchSingle_def
        watcher1_def IN_defs label_by_priority_def priority_def)
  have b: "\<not> remove' entry1" "watchId self_move_event = 1" "inotifyFD watcher1 = 3"
    "watchMap watcher1 = [1 \<mapsto> entry1]"
    by (simp_all add: self_move_event_def entry1_def newWatchSingle_def watcher1_def watcher34_def)
  from self_move_then_ignored [OF a] b show ?thesis by fastforce
qed

text \<open>
  C8 as stated fails when the self-delete bit is set as well: the event is
  labelled \<^verbatim>\<open>DELETE_SELF\<close>, the entry is marked, and no deregistration is
  issued.
\<close>

theorem self_move_bit_without_deregistration:
  "Mask self_both_event AND IN_MOVE_SELF = IN_MOVE_SELF \<and>
   watch self_both_event \<and>
   watchMap watcher1 (watchId self_both_event) = Some entry1 \<and>
   GetEventName self_both_event watcher1 =
     Inr (''DELETE_SELF'', watcher1\<lparr>watchMap := [1 \<mapsto> entry1\<lparr>remove' := True\<rparr>]\<rparr>, [])"
  by (simp add: self_both_event_def entry1_def newWatchSingle_def watcher1_def watcher34_def
      GetEventName_def markRemove_def IN_defs)

text \<open>
  C10.  With the self-delete or the self-move bit set and a non-nil
  back-reference, \<^verbatim>\<open>GetEventName\<close> panics with a nil dereference exactly when
  the identifier is not a key of the registry, and returns exactly when it is.
  In particular, once a terminal-ignored event has deleted the pending entry,
  classifying the self event again panics.
\<close>

theorem GetEventName_self_needs_entry:
  assumes "watch ws"
    and "Mask ws AND IN_DELETE_SELF = IN_DELETE_SELF \<or> Mask ws AND IN_MOVE_SELF = IN_MOVE_SELF"
  shows "(GetEventName ws w = Inl NilPointerDereference \<longleftrightarrow> watchMap w (watchId ws) = None) \<and>
     ((\<exists>r. GetEventName ws w = Inr r) \<longleftrightarrow> watchMap w (watchId ws) \<noteq> None) \<and>
     (\<forall>ig e. watch ig \<and> watchId ig = watchId ws \<and> watchMap w (watchId ws) = Some e \<and>
        remove' e \<and> label_by_priority (Mask ig) = ''REMOVE'' \<longrightarrow>
        (\<exists>w1. GetEventName ig w = Inr (''REMOVE'', w1, []) \<and>
           GetEventName ws w1 = Inl NilPointerDereference))"
proof -
  have some: "\<And>v e. watchMap v (watchId ws) = Some e \<Longrightarrow> \<exists>r. GetEventName ws v = Inr r"
    using assms by (auto simp: GetEventName_def markRemove_def)
  have none: "\<And>v. watchMap v (watchId ws) = None \<Longrightarrow> GetEventName ws v = Inl NilPointerDereference"
    using assms by (auto simp: GetEventName_def markRemove_def)
  have 1: "GetEventName ws w = Inl NilPointerDereference \<longleftrightarrow> watchMap w (watchId ws) = None"
    using some [of w] none [of w] by (cases "watchMap w (watchId ws)") auto
  have 2: "(\<exists>r. GetEventName ws w = Inr r) \<longleftrightarrow> watchMap w (watchId ws) \<noteq> None"
    using some [of w] none [of w] by (cases "watchMap w (watchId ws)") auto
  have 3: "\<exists>w1. GetEventName ig w = Inr (''REMOVE'', w1, []) \<and>
           GetEventName ws w1 = Inl NilPointerDereference"
    if h: "watch ig" "watchId ig = watchId ws" "watchMap w (watchId ws) = Some e" "remove' e"
      "label_by_priority (Mask ig) = ''REMOVE''" for ig e
  proof -
    have "GetEventName ig w =
        Inr (''REMOVE'', w\<lparr>watchMap := (watchMap w)(watchId ig := None)\<rparr>, [])"
      using GetEventName_ignored [OF h(1) _ h(5), of w e] h(2,3,4) by simp
    moreover have "GetEventName ws (w\<lparr>watchMap := (watchMap w)(watchId ig := None)\<rparr>) =
        Inl NilPointerDereference"
      by (rule none) (simp add: h(2))
    ultimately show ?thesis by blast
  qed
  show ?thesis using 1 2 3 by blast
qed

theorem GetEventName_self_needs_entry_witness:
  "GetEventName self_move_event watcher34 = Inl NilPointerDereference \<and>
   (\<exists>r. GetEventName self_move_event watcher1 = Inr r) \<and>
   (\<exists>w1. GetEventName ignored_event watcher1_pending = Inr (''REMOVE'', w1, []) \<and>
      GetEventName self_move_event w1 = Inl NilPointerDereference)"
proof -
  have a: "watch self_move_event"
    "Mask self_move_event AND IN_DELETE_SELF = IN_DELETE_SELF \<or>
     Mask self_move_event AND IN_MOVE_SELF = IN_MOVE_SELF"
    by (simp_all add: self_move_event_def entry1_def newWatchSingle_def IN_defs)
  have b: "watchMap watcher34 (watchId self_move_event) = None"
    "watchMap watcher1 (watchId self_move_event) \<noteq> None"
    by (simp_all add: self_move_event_def entry1_def newWatchSingle_def watcher1_def watcher34_def)
  have c: "watch ignored_event" "watchId ignored_event = watchId self_move_event"
    "watchMap watcher1_pending (watchId self_move_event) = Some (entry1\<lparr>remove' := True\<rparr>)"
    "remove' (entry1\<lparr>remove' := True\<rparr>)"
    "label_by_priority (Mask ignored_event) = ''REMOVE''"
    by (simp_all add: self_move_event_def ignored_event_def entry1_def newWatchSingle_def
        watcher1_pending_def IN_defs label_by_priority_def priority_def)
  from GetEventName_self_needs_entry [OF a, of watcher34] b
  have 1: "GetEventName self_move_event watcher34 = Inl NilPointerDereference" by blast
  from GetEventName_self_needs_entry [OF a, of watcher1] b
  have 2: "\<exists>r. GetEventName self_move_event watcher1 = Inr r" by blast
  from GetEventName_self_needs_entry [OF a, of watcher1_pending] c
  have 3: "\<exists>w1. GetEventName ignored_event watcher1_pending = Inr (''REMOVE'', w1, []) \<and>
      GetEventName self_move_event w1 = Inl NilPointerDereference" by blast
  show ?thesis using 1 2 3 by blast
qed

section \<open>Properties of the parser\<close>

subsection \<open>Header fields of an encoded record\<close>

lemma length_put_u32 [simp]: "length (put_u32 x) = 4"
  by (simp add: put_u32_def)

lemma get_put_u32: "get_u32 (put_u32 x @ bs) 0 = x"
  unfolding get_u32_def put_u32_def
  apply simp
  apply (rule bit_word_eqI)
  subgoal for n
    by (cases "n < 8"; cases "n < 16"; cases "n < 24") (auto simp: bit_simps not_less)
  done

lemma get_u32_append: "get_u32 (xs @ bs) (length xs + i) = get_u32 bs i"
  by (simp add: get_u32_def nth_append)

lemma length_encode: "length (encode r) = 16 + length (ev_Name r)"
  by (simp add: encode_def)

lemma header_encode:
  "event_Wd (encode r @ bs) = ev_Wd r"
  "event_Mask (encode r @ bs) = ev_Mask r"
  "event_Len (encode r @ bs) = word_of_nat (length (ev_Name r))"
proof -
  let ?len = "put_u32 (word_of_nat (length (ev_Name r)))"
  show "event_Wd (encode r @ bs) = ev_Wd r"
    by (simp add: event_Wd_def encode_def get_put_u32)
  have "get_u32 (put_u32 (ev_Wd r) @ (put_u32 (ev_Mask r) @ put_u32 (ev_Cookie r) @
      ?len @ ev_Name r @ bs)) (length (put_u32 (ev_Wd r)) + 0) = ev_Mask r"
    by (subst get_u32_append) (rule get_put_u32)
  then show "event_Mask (encode r @ bs) = ev_Mask r"
    by (simp add: event_Mask_def encode_def)
  have "get_u32 ((put_u32 (ev_Wd r) @ put_u32 (ev_Mask r) @ put_u32 (ev_Cookie r)) @
      (?len @ ev_Name r @ bs))
      (length (put_u32 (ev_Wd r) @ put_u32 (ev_Mask r) @ put_u32 (ev_Cookie r)) + 0)
      = word_of_nat (length (ev_Name r))"
    by (subst get_u32_append) (rule get_put_u32)
  then show "event_Len (encode r @ bs) = word_of_nat (length (ev_Name r))"
    by (simp add: event_Len_def encode_def)
qed

subsection \<open>One call on a buffer that starts with a complete record\<close>

lemma forwardBuffer_complete:
  assumes buf: "eventBuffer w = encode r @ rest"
    and cap: "length (eventBuffer w) = capacity"
    and reg: "watchMap w (ev_Wd r) = Some e"
  shows "forwardBuffer w =
    Inr (w\<lparr>watchMap := (watchMap w)(ev_Wd r \<mapsto>
              e\<lparr>Mask := ev_Mask r, FileName := path e @ string_of_bytes (ev_Name r)\<rparr>),
           eventBuffer := rest @ drop (length rest) (eventBuffer w),
           bufferItem := bufferItem w - word_of_nat (length (encode r))\<rparr>,
         Some (e\<lparr>Mask := ev_Mask r, FileName := path e @ string_of_bytes (ev_Name r)\<rparr>))"
proof -
  let ?n = "length (ev_Name r)"
  have n: "16 + ?n + length rest = 400"
    using cap buf by (simp add: capacity_def SizeofInotifyEvent_def length_encode)
  have un: "unat (word_of_nat ?n :: u32) = ?n" "unat (16 + word_of_nat ?n :: u32) = 16 + ?n"
    using n by (simp_all add: unat_of_nat unat_word_ariths)
  have pos: "(0 < (word_of_nat ?n :: u32)) = (ev_Name r \<noteq> [])"
    using un(1) by (metis length_greater_0_conv unat_gt_0 word_neq_0_conv)
  have dr: "drop (16 + ?n) (encode r @ rest) = rest"
    "drop 16 (encode r @ rest) = ev_Name r @ rest"
    by (simp_all add: encode_def)
  show ?thesis
  proof (cases "ev_Name r = []")
    case True
    then show ?thesis
      using n reg dr
      by (simp add: forwardBuffer_def Let_def buf header_encode SizeofInotifyEvent_def
          slice_def copy_def length_encode string_of_bytes_def)
  next
    case False
    then show ?thesis
      using n reg dr un pos
      by (simp add: forwardBuffer_def Let_def buf header_encode SizeofInotifyEvent_def
          slice_def copy_def length_encode)
  qed
qed

subsection \<open>One call on any resolved header\<close>





subsection \<open>Successive calls\<close>

lemma event_of_update:
  "reg k = Some e \<Longrightarrow> event_of (reg(k \<mapsto> e\<lparr>Mask := m, FileName := f\<rparr>)) r = event_of reg r"
  by (simp add: event_of_def)

lemma unat_sub_of_nat:
  fixes b :: u32
  assumes "unat b = n + k" and "n + k \<le> 400"
  shows "unat (b - word_of_nat n) = k"
proof -
  have n: "unat (word_of_nat n :: u32) = n"
    using assms(2) by (simp add: unat_of_nat)
  then have "(word_of_nat n :: u32) \<le> b"
    using assms(1) by (simp add: word_le_nat_alt)
  then have "unat (b - word_of_nat n) = unat b - unat (word_of_nat n :: u32)"
    by (rule unat_sub)
  then show ?thesis using n assms(1) by simp
qed

text \<open>
  C2.  When the buffered bytes are \<open>N\<close> records laid end to end, every
  identifier resolving, \<open>N\<close> calls of \<^verbatim>\<open>forwardBuffer\<close> return \<open>N\<close> non-nil
  events, the \<open>i\<close>-th being the event of the \<open>i\<close>-th record, and leave
  \<^verbatim>\<open>bufferItem\<close> at 0.
\<close>

theorem forwardBuffer_times_in_order:
  assumes "eventBuffer w = concat (map encode rs) @ tail"
    and "length (eventBuffer w) = capacity"
    and "unat (bufferItem w) = length (concat (map encode rs))"
    and "\<forall>r\<in>set rs. watchMap w (ev_Wd r) \<noteq> None"
  shows "\<exists>w' evs. forwardBuffer_times (length rs) w = Inr (w', map Some evs) \<and>
           length evs = length rs \<and>
           map Some evs = map (event_of (watchMap w)) rs \<and>
           bufferItem w' = 0"
  using assms
proof (induction rs arbitrary: w tail)
  case Nil
  then show ?case by (simp add: unat_eq_0)
next
  case (Cons r rs)
  obtain e where e: "watchMap w (ev_Wd r) = Some e"
    using Cons.prems(4) by auto
  let ?ev = "e\<lparr>Mask := ev_Mask r, FileName := path e @ string_of_bytes (ev_Name r)\<rparr>"
  let ?rest = "concat (map encode rs) @ tail"
  let ?w1 = "w\<lparr>watchMap := (watchMap w)(ev_Wd r \<mapsto> ?ev),
           eventBuffer := ?rest @ drop (length ?rest) (eventBuffer w),
           bufferItem := bufferItem w - word_of_nat (length (encode r))\<rparr>"
  have buf: "eventBuffer w = encode r @ ?rest"
    using Cons.prems(1) by simp
  have step: "forwardBuffer w = Inr (?w1, Some ?ev)"
    by (rule forwardBuffer_complete [OF buf Cons.prems(2) e])
  have len: "length (encode r) + length ?rest = 400"
    using Cons.prems(2) buf by (simp add: capacity_def SizeofInotifyEvent_def)
  have 1: "eventBuffer ?w1 = concat (map encode rs) @ (tail @ drop (length ?rest) (eventBuffer w))"
    by simp
  have 2: "length (eventBuffer ?w1) = capacity"
    using Cons.prems(2) len by (simp add: capacity_def SizeofInotifyEvent_def)
  have 3: "unat (bufferItem ?w1) = length (concat (map encode rs))"
    using Cons.prems(3) len by (simp add: unat_sub_of_nat)
  have 4: "\<forall>x\<in>set rs. watchMap ?w1 (ev_Wd x) \<noteq> None"
    using Cons.prems(4) by simp
  from Cons.IH [OF 1 2 3 4] obtain w' evs where
    ih: "forwardBuffer_times (length rs) ?w1 = Inr (w', map Some evs)"
      "length evs = length rs"
      "map Some evs = map (event_of (watchMap ?w1)) rs" "bufferItem w' = 0"
    by blast
  have same: "event_of (watchMap ?w1) = event_of (watchMap w)"
    using e by (auto simp: event_of_update)
  have head: "event_of (watchMap w) r = Some ?ev"
    using e by (simp add: event_of_def)
  have "forwardBuffer_times (length (r # rs)) w = Inr (w', map Some (?ev # evs))"
    using step ih(1) by simp
  moreover have "map Some (?ev # evs) = map (event_of (watchMap w)) (r # rs)"
    using ih(3) same head by simp
  ultimately show ?case
    using ih(2,4) by (intro exI [of _ w'] exI [of _ "?ev # evs"]) simp
qed

subsection \<open>The two records of the end-to-end scenario\<close>

lemma string_of_a_txt: "string_of_bytes a_txt = ''a.txt'' @ replicate 11 (CHR 0x00)"
  by (simp add: string_of_bytes_def a_txt_def char_of_def bit_Suc_0_iff)

lemma two_records_facts:
  "eventBuffer watcher1_two_records = encode create_a_txt @ (encode delete_a_txt @ replicate 336 0)"
  "length (eventBuffer watcher1_two_records) = capacity"
  "watchMap watcher1_two_records (ev_Wd create_a_txt) = Some entry1"
  "watchMap watcher1_two_records = [1 \<mapsto> entry1]"
  by (simp_all add: watcher1_two_records_def watcher1_def watcher34_def length_encode
      create_a_txt_def delete_a_txt_def a_txt_def capacity_def SizeofInotifyEvent_def)

lemma event_of_a_txt:
  "event_of [1 \<mapsto> entry1] create_a_txt = Some create_event"
  "event_of [1 \<mapsto> entry1] delete_a_txt = Some delete_event"
  by (simp_all add: event_of_def create_a_txt_def delete_a_txt_def create_event_def
      delete_event_def string_of_a_txt entry1_def newWatchSingle_def PathSeparator_def)

text \<open>
  C1, at the record the kernel writes for creating \<^verbatim>\<open>a.txt\<close> in the watched
  directory \<^verbatim>\<open>/tmp/d\<close>: the name field is \<^verbatim>\<open>a.txt\<close> and eleven NUL bytes,
  \<^verbatim>\<open>Len\<close> is 16, and the event returned has the mask \<^verbatim>\<open>IN_CREATE\<close> and a
  \<^verbatim>\<open>FileName\<close> that ends with the eleven NUL bytes: the padding is kept.
\<close>

theorem FileName_keeps_padding:
  "map_sum id snd (forwardBuffer watcher1_two_records) = Inr (Some create_event) \<and>
   map_sum id snd (WaitEvent watcher1_two_records woken) = Inr (Inr create_event) \<and>
   Mask create_event = IN_CREATE \<and>
   FileName create_event = ''/tmp/d/a.txt'' @ replicate 11 (CHR 0x00) \<and>
   FileName create_event \<noteq> ''/tmp/d/a.txt''"
proof -
  have ev: "entry1\<lparr>Mask := ev_Mask create_a_txt,
      FileName := path entry1 @ string_of_bytes (ev_Name create_a_txt)\<rparr> = create_event"
    by (simp add: create_a_txt_def create_event_def string_of_a_txt entry1_def
        newWatchSingle_def PathSeparator_def)
  have fb: "map_sum id snd (forwardBuffer watcher1_two_records) = Inr (Some create_event)"
    by (simp add: forwardBuffer_complete [OF two_records_facts(1-3)] ev)
  have "bufferItem watcher1_two_records = 64"
    by (simp add: watcher1_two_records_def)
  then have "map_sum id snd (WaitEvent watcher1_two_records woken) = Inr (Inr create_event)"
    using fb by (auto simp add: WaitEvent_def SizeofInotifyEvent_def Let_def
        split: sum.splits option.splits prod.splits)
  then show ?thesis
    using fb by (simp add: create_event_def)
qed

theorem forwardBuffer_times_in_order_witness:
  "\<exists>w'. forwardBuffer_times 2 watcher1_two_records = Inr (w', [Some create_event, Some delete_event])
      \<and> bufferItem w' = 0"
proof -
  have a: "eventBuffer watcher1_two_records =
      concat (map encode [create_a_txt, delete_a_txt]) @ replicate 336 0"
    "unat (bufferItem watcher1_two_records) = length (concat (map encode [create_a_txt, delete_a_txt]))"
    "\<forall>r\<in>set [create_a_txt, delete_a_txt]. watchMap watcher1_two_records (ev_Wd r) \<noteq> None"
    by (simp_all add: watcher1_two_records_def watcher1_def watcher34_def length_encode
        create_a_txt_def delete_a_txt_def a_txt_def)
  from forwardBuffer_times_in_order [OF a(1) two_records_facts(2) a(2) a(3)]
  obtain w' evs where
    r: "forwardBuffer_times (length [create_a_txt, delete_a_txt]) watcher1_two_records
         = Inr (w', map Some evs)"
      "map Some evs = map (event_of (watchMap watcher1_two_records)) [create_a_txt, delete_a_txt]"
      "bufferItem w' = 0"
    by blast
  have evs: "map Some evs = [Some create_event, Some delete_event]"
    using r(2) by (simp add: two_records_facts(4) event_of_a_txt)
  have "forwardBuffer_times 2 watcher1_two_records =
      forwardBuffer_times (length [create_a_txt, delete_a_txt]) watcher1_two_records"
    by (rule arg_cong [where f = "\<lambda>n. forwardBuffer_times n watcher1_two_records"]) simp
  then have "forwardBuffer_times 2 watcher1_two_records =
      Inr (w', [Some create_event, Some delete_event])"
    by (simp only: r(1) evs)
  then show ?thesis using r(3) by blast
qed

subsection \<open>An identifier the registry does not hold\<close>

lemma forwardBuffer_unresolved:
  assumes reg: "watchMap w (event_Wd (eventBuffer w)) = None"
    and inv: "unat (bufferItem w) \<le> length (eventBuffer w)"
  shows "forwardBuffer w =
    Inr (w\<lparr>eventBuffer := copy (eventBuffer w) (drop (unat (bufferItem w)) (eventBuffer w)),
           bufferItem := 0\<rparr>, None)"
  using reg inv by (simp add: forwardBuffer_def Let_def slice_def)

text \<open>
  C5.  When the header at the front of the buffer names an identifier that is
  not registered, \<^verbatim>\<open>forwardBuffer\<close> returns nil and sets \<^verbatim>\<open>bufferItem\<close> to 0
  whatever else is buffered, and \<^verbatim>\<open>WaitEvent\<close> returns an error of its own,
  different from its two other errors, both when it finds the bytes at once
  and when it finds them after waiting.
\<close>

theorem untracked_identifier_discards_buffer:
  assumes reg: "watchMap w (event_Wd (eventBuffer w)) = None"
    and cap: "length (eventBuffer w) = capacity"
    and hdr: "SizeofInotifyEvent \<le> unat (bufferItem w)"
    and inv: "unat (bufferItem w) \<le> capacity"
  shows "\<exists>w'. forwardBuffer w = Inr (w', None) \<and> bufferItem w' = 0 \<and>
      watchMap w' = watchMap w \<and>
      WaitEvent w woken = Inr (w', Inl err_untracked) \<and>
      (bufferItem v = 0 \<and> \<not> closes v \<longrightarrow>
         WaitEvent v w = Inr (w'\<lparr>wait := False\<rparr>, Inl err_untracked)) \<and>
      err_untracked \<noteq> New ''The Watcher is closes'' \<and>
      err_untracked \<noteq> New ''The event bufferItem Cross Lines''"
proof -
  let ?w' = "w\<lparr>eventBuffer := copy (eventBuffer w) (drop (unat (bufferItem w)) (eventBuffer w)),
           bufferItem := 0\<rparr>"
  have fb: "forwardBuffer w = Inr (?w', None)"
    using reg inv cap by (simp add: forwardBuffer_unresolved)
  have nz: "bufferItem w \<noteq> 0"
    using hdr by (auto simp: SizeofInotifyEvent_def)
  have ge: "\<not> (word_of_nat SizeofInotifyEvent :: u32) > bufferItem w"
    using hdr by (simp add: SizeofInotifyEvent_def word_less_nat_alt)
  have 1: "WaitEvent w woken = Inr (?w', Inl err_untracked)"
    using fb nz ge by (simp add: WaitEvent_def Let_def err_untracked_def)
  have fb2: "forwardBuffer (w\<lparr>wait := False\<rparr>) = Inr (?w'\<lparr>wait := False\<rparr>, None)"
    using reg inv cap by (simp add: forwardBuffer_unresolved)
  have 2: "WaitEvent v w = Inr (?w'\<lparr>wait := False\<rparr>, Inl err_untracked)"
    if "bufferItem v = 0" "\<not> closes v"
    using that fb2 ge by (simp add: WaitEvent_def Let_def err_untracked_def)
  have 3: "err_untracked \<noteq> New ''The Watcher is closes'' \<and>
      err_untracked \<noteq> New ''The event bufferItem Cross Lines''"
    by (simp add: err_untracked_def)
  show ?thesis
    using fb 1 2 3 by (intro exI [of _ ?w']) simp
qed

theorem untracked_identifier_discards_buffer_witness:
  "\<exists>w'. forwardBuffer watcher_untracked = Inr (w', None) \<and> bufferItem w' = 0 \<and>
     WaitEvent watcher_untracked watcher34 = Inr (w', Inl err_untracked) \<and>
     WaitEvent watcher34 watcher_untracked = Inr (w'\<lparr>wait := False\<rparr>, Inl err_untracked)"
proof -
  have a: "watchMap watcher_untracked (event_Wd (eventBuffer watcher_untracked)) = None"
    "length (eventBuffer watcher_untracked) = capacity"
    "SizeofInotifyEvent \<le> unat (bufferItem watcher_untracked)"
    "unat (bufferItem watcher_untracked) \<le> capacity"
    using two_records_facts(2)
    by (simp_all add: watcher_untracked_def)
      (simp_all add: watcher1_two_records_def capacity_def SizeofInotifyEvent_def)
  have b: "bufferItem watcher34 = 0" "\<not> closes watcher34"
    by (simp_all add: watcher34_def)
  from untracked_identifier_discards_buffer [OF a, of watcher34 watcher34] b
  show ?thesis by blast
qed

subsection \<open>Sizes and headers of the example records\<close>

lemma long_lengths:
  "length (encode long_create) = 256" "length (encode long_delete) = 272"
  by (simp_all add: length_encode long_create_def long_delete_def)


section \<open>Properties of the reactor's append\<close>

lemma length_delivered: "length (delivered src k) \<le> k"
  by (simp add: delivered_def split: sum.splits)

lemma forwardBuffer_length:
  assumes "forwardBuffer w = Inr (w1, r)"
  shows "length (eventBuffer w1) = length (eventBuffer w)"
  using assms
  by (auto simp: forwardBuffer_def Let_def slice_def copy_def
      split: option.splits if_splits prod.splits)

lemma read_append:
  assumes "unat (bufferItem w1) \<le> length (eventBuffer w1)"
  shows "(case slice (eventBuffer w1) (unat (bufferItem w1)) (length (eventBuffer w1)) of
           None \<Rightarrow> Inl SliceBoundsOutOfRange
         | Some p \<Rightarrow>
             (case Read src (length p) of
                Inl err \<Rightarrow> Inr w1
              | Inr bs \<Rightarrow>
                  Inr (w1\<lparr>eventBuffer :=
                            take (unat (bufferItem w1)) (eventBuffer w1) @ copy p bs,
                          bufferItem := bufferItem w1 + word_of_nat (length bs)\<rparr>)))
      = Inr (appended w1 (delivered src (length (eventBuffer w1) - unat (bufferItem w1))))"
  using assms
  by (auto simp: slice_def Read_def delivered_def appended_def copy_def min_def add.commute
      split: sum.splits)

lemma read_append_panic:
  assumes "\<not> unat (bufferItem w1) \<le> length (eventBuffer w1)"
  shows "slice (eventBuffer w1) (unat (bufferItem w1)) (length (eventBuffer w1)) = None"
  using assms by (simp add: slice_def)

lemma appended_bounds:
  assumes "unat (bufferItem w1) + length bs \<le> length (eventBuffer w1)"
    and "length (eventBuffer w1) = capacity"
  shows "unat (bufferItem (appended w1 bs)) = unat (bufferItem w1) + length bs"
    and "length (eventBuffer (appended w1 bs)) = capacity"
    and "take (unat (bufferItem w1)) (eventBuffer (appended w1 bs)) =
         take (unat (bufferItem w1)) (eventBuffer w1)"
    and "take (length bs) (drop (unat (bufferItem w1)) (eventBuffer (appended w1 bs))) = bs"
proof -
  have le: "unat (bufferItem w1) + length bs \<le> 400"
    using assms by (simp add: capacity_def SizeofInotifyEvent_def)
  then have "unat (word_of_nat (length bs) :: u32) = length bs"
    by (simp add: unat_of_nat)
  then show "unat (bufferItem (appended w1 bs)) = unat (bufferItem w1) + length bs"
    using le by (simp add: appended_def unat_word_ariths)
  show "length (eventBuffer (appended w1 bs)) = capacity"
    using assms by (simp add: appended_def)
  show "take (unat (bufferItem w1)) (eventBuffer (appended w1 bs)) =
         take (unat (bufferItem w1)) (eventBuffer w1)"
    using assms by (simp add: appended_def)
  show "take (length bs) (drop (unat (bufferItem w1)) (eventBuffer (appended w1 bs))) = bs"
    using assms by (simp add: appended_def)
qed

text \<open>
  C6.  For a ready event on the inotify descriptor, the reactor parses once
  before reading exactly when \<^verbatim>\<open>bufferItem\<close> is above \<^verbatim>\<open>MAX_ITEM\<close> (20 headers,
  four fifths of the capacity) and not at all otherwise; the read then stores at
  most as many bytes as are free behind the buffered ones, which stay as they
  are, and \<^verbatim>\<open>bufferItem\<close> grows by the number stored.  Whenever the step
  returns, \<^verbatim>\<open>bufferItem\<close> is within capacity.
\<close>

theorem epollWait_event_overflow_policy:
  assumes ready: "fst e AND EPOLLHUP \<noteq> 0 \<or> fst e AND EPOLLERR \<noteq> 0 \<or> fst e AND EPOLLIN \<noteq> 0"
    and fd: "snd e = word_of_int (inotifyFD w)"
    and cap: "length (eventBuffer w) = capacity"
  shows
    "epollWait_event w e src =
       (if MAX_ITEM < unat (bufferItem w) then
          (case forwardBuffer w of
             Inl p \<Rightarrow> Inl p
           | Inr (w1, r) \<Rightarrow>
               if unat (bufferItem w1) \<le> capacity
               then Inr (appended w1 (delivered src (capacity - unat (bufferItem w1))))
               else Inl SliceBoundsOutOfRange)
        else Inr (appended w (delivered src (capacity - unat (bufferItem w))))) \<and>
     (\<forall>w'. epollWait_event w e src = Inr w' \<longrightarrow>
        unat (bufferItem w') \<le> capacity \<and> length (eventBuffer w') = capacity) \<and>
     (\<forall>w1 k. length (eventBuffer w1) = capacity \<and> unat (bufferItem w1) \<le> capacity \<and>
        k = capacity - unat (bufferItem w1) \<longrightarrow>
        length (delivered src k) \<le> k \<and>
        unat (bufferItem (appended w1 (delivered src k))) =
          unat (bufferItem w1) + length (delivered src k) \<and>
        take (unat (bufferItem w1)) (eventBuffer (appended w1 (delivered src k))) =
          take (unat (bufferItem w1)) (eventBuffer w1) \<and>
        take (length (delivered src k))
          (drop (unat (bufferItem w1)) (eventBuffer (appended w1 (delivered src k)))) =
          delivered src k) \<and>
     MAX_ITEM = 20 * SizeofInotifyEvent \<and> 5 * MAX_ITEM = 4 * capacity"
proof -
  let ?rhs = "if MAX_ITEM < unat (bufferItem w) then
          (case forwardBuffer w of
             Inl p \<Rightarrow> Inl p
           | Inr (w1, r) \<Rightarrow>
               if unat (bufferItem w1) \<le> capacity
               then Inr (appended w1 (delivered src (capacity - unat (bufferItem w1))))
               else Inl SliceBoundsOutOfRange)
        else Inr (appended w (delivered src (capacity - unat (bufferItem w))))"
  have hw: "(bufferItem w > word_of_nat MAX_ITEM) = (MAX_ITEM < unat (bufferItem w))"
    by (simp add: MAX_ITEM_def SizeofInotifyEvent_def word_less_nat_alt)
  have eq: "epollWait_event w e src = ?rhs"
  proof (cases "MAX_ITEM < unat (bufferItem w)")
    case False
    then have "unat (bufferItem w) \<le> length (eventBuffer w)"
      using cap by (simp add: MAX_ITEM_def capacity_def)
    from read_append [OF this, of src] False show ?thesis
      using ready fd hw cap by (simp add: epollWait_event_def)
  next
    case True
    show ?thesis
    proof (cases "forwardBuffer w")
      case (Inl p)
      then show ?thesis using True ready fd hw by (simp add: epollWait_event_def)
    next
      case (Inr x)
      obtain w1 r where x: "x = (w1, r)" by (cases x)
      have len: "length (eventBuffer w1) = capacity"
        using forwardBuffer_length [of w w1 r] Inr x cap by simp
      show ?thesis
      proof (cases "unat (bufferItem w1) \<le> capacity")
        case le: True
        then have "unat (bufferItem w1) \<le> length (eventBuffer w1)" using len by simp
        from read_append [OF this, of src] show ?thesis
          using True ready fd hw Inr x len le by (simp add: epollWait_event_def)
      next
        case gt: False
        then have "\<not> unat (bufferItem w1) \<le> length (eventBuffer w1)" using len by simp
        from read_append_panic [OF this] show ?thesis
          using True ready fd hw Inr x len gt by (simp add: epollWait_event_def)
      qed
    qed
  qed
  have app: "length (delivered src k) \<le> k \<and>
        unat (bufferItem (appended w1 (delivered src k))) =
          unat (bufferItem w1) + length (delivered src k) \<and>
        length (eventBuffer (appended w1 (delivered src k))) = capacity \<and>
        take (unat (bufferItem w1)) (eventBuffer (appended w1 (delivered src k))) =
          take (unat (bufferItem w1)) (eventBuffer w1) \<and>
        take (length (delivered src k))
          (drop (unat (bufferItem w1)) (eventBuffer (appended w1 (delivered src k)))) =
          delivered src k"
    if "length (eventBuffer w1) = capacity" "unat (bufferItem w1) \<le> capacity"
      "k = capacity - unat (bufferItem w1)" for w1 k
  proof -
    have "unat (bufferItem w1) + length (delivered src k) \<le> length (eventBuffer w1)"
      using that length_delivered [of src k] by simp
    from appended_bounds [OF this that(1)] length_delivered [of src k] show ?thesis by simp
  qed
  have bound: "unat (bufferItem w') \<le> capacity \<and> length (eventBuffer w') = capacity"
    if r: "epollWait_event w e src = Inr w'" for w'
  proof (cases "MAX_ITEM < unat (bufferItem w)")
    case False
    then have le: "unat (bufferItem w) \<le> capacity"
      by (simp add: MAX_ITEM_def capacity_def)
    from r eq False have "w' = appended w (delivered src (capacity - unat (bufferItem w)))"
      by simp
    then show ?thesis
      using app [OF cap le refl] le by auto
  next
    case True
    from r eq True obtain w1 r1 where
      1: "forwardBuffer w = Inr (w1, r1)" "unat (bufferItem w1) \<le> capacity"
      "w' = appended w1 (delivered src (capacity - unat (bufferItem w1)))"
      by (auto split: sum.splits prod.splits if_splits)
    have len: "length (eventBuffer w1) = capacity"
      using forwardBuffer_length [OF 1(1)] cap by simp
    show ?thesis
      using app [OF len 1(2) refl] 1(2,3) by auto
  qed
  have const: "MAX_ITEM = 20 * SizeofInotifyEvent \<and> 5 * MAX_ITEM = 4 * capacity"
    by (simp add: MAX_ITEM_def capacity_def)
  have b2: "\<forall>w'. epollWait_event w e src = Inr w' \<longrightarrow>
        unat (bufferItem w') \<le> capacity \<and> length (eventBuffer w') = capacity"
    using bound by blast
  have a2: "\<forall>w1 k. length (eventBuffer w1) = capacity \<and> unat (bufferItem w1) \<le> capacity \<and>
        k = capacity - unat (bufferItem w1) \<longrightarrow>
        length (delivered src k) \<le> k \<and>
        unat (bufferItem (appended w1 (delivered src k))) =
          unat (bufferItem w1) + length (delivered src k) \<and>
        take (unat (bufferItem w1)) (eventBuffer (appended w1 (delivered src k))) =
          take (unat (bufferItem w1)) (eventBuffer w1) \<and>
        take (length (delivered src k))
          (drop (unat (bufferItem w1)) (eventBuffer (appended w1 (delivered src k)))) =
          delivered src k"
    using app by blast
  show ?thesis
    by (rule conjI [OF eq], rule conjI [OF b2], rule conjI [OF a2], rule const)
qed

lemma a_txt_lengths:
  "length (encode create_a_txt) = 32" "length (encode delete_a_txt) = 32"
  by (simp_all add: length_encode create_a_txt_def delete_a_txt_def a_txt_def)

theorem epollWait_event_overflow_policy_witness:
  "epollWait_event watcher1_near_full (EPOLLIN, 3) (\<lambda>k. Inr (encode long_delete)) =
     Inr (appended watcher1_near_full (take 144 (encode long_delete))) \<and>
   (\<exists>w1 r. forwardBuffer watcher1_over = Inr (w1, r) \<and> unat (bufferItem w1) = 96 \<and>
      epollWait_event watcher1_over (EPOLLIN, 3) (\<lambda>k. Inr (encode long_delete)) =
        Inr (appended w1 (encode long_delete)) \<and>
      unat (bufferItem (appended w1 (encode long_delete))) = 368)"
proof -
  let ?src = "\<lambda>k::nat. (Inr (encode long_delete) :: error + byte list)"
  have ready: "fst (EPOLLIN, 3 :: u32) AND EPOLLHUP \<noteq> 0 \<or> fst (EPOLLIN, 3 :: u32) AND EPOLLERR \<noteq> 0 \<or>
      fst (EPOLLIN, 3 :: u32) AND EPOLLIN \<noteq> 0"
    by (simp add: EPOLLIN_def)
  have n: "snd (EPOLLIN, 3 :: u32) = word_of_int (inotifyFD watcher1_near_full)"
    "length (eventBuffer watcher1_near_full) = capacity"
    "unat (bufferItem watcher1_near_full) = 256"
    by (simp_all add: watcher1_near_full_def watcher1_def watcher34_def long_lengths
        capacity_def SizeofInotifyEvent_def)
  have d1: "delivered ?src 144 = take 144 (encode long_delete)"
    by (simp add: delivered_def)
  from epollWait_event_overflow_policy [OF ready n(1,2), of ?src]
  have 1: "epollWait_event watcher1_near_full (EPOLLIN, 3) ?src =
     Inr (appended watcher1_near_full (take 144 (encode long_delete)))"
    by (simp add: n(3) MAX_ITEM_def capacity_def SizeofInotifyEvent_def d1)
  have o: "snd (EPOLLIN, 3 :: u32) = word_of_int (inotifyFD watcher1_over)"
    "length (eventBuffer watcher1_over) = capacity"
    "unat (bufferItem watcher1_over) = 352"
    by (simp_all add: watcher1_over_def watcher1_def watcher34_def long_lengths a_txt_lengths
        capacity_def SizeofInotifyEvent_def)
  have buf: "eventBuffer watcher1_over = encode long_create @
      (encode create_a_txt @ encode delete_a_txt @ encode create_a_txt @ replicate 48 0)"
    by (simp add: watcher1_over_def)
  have reg: "watchMap watcher1_over (ev_Wd long_create) = Some entry1"
    by (simp add: watcher1_over_def watcher1_def long_create_def)
  from forwardBuffer_complete [OF buf o(2) reg]
  obtain w1 r where fb: "forwardBuffer watcher1_over = Inr (w1, r)"
    and b1: "bufferItem w1 = bufferItem watcher1_over - word_of_nat (length (encode long_create))"
    by simp
  have "bufferItem watcher1_over = 352" by (simp add: watcher1_over_def)
  then have u1: "unat (bufferItem w1) = 96"
    using b1 by (simp add: long_lengths)
  have d2: "delivered ?src 304 = encode long_delete"
    by (simp add: delivered_def long_lengths)
  from epollWait_event_overflow_policy [OF ready o(1,2), of ?src]
  have 2: "epollWait_event watcher1_over (EPOLLIN, 3) ?src = Inr (appended w1 (encode long_delete))"
    and 3: "\<forall>w'. epollWait_event watcher1_over (EPOLLIN, 3) ?src = Inr w' \<longrightarrow>
        unat (bufferItem w') \<le> capacity"
    by (simp_all add: o(3) fb u1 MAX_ITEM_def capacity_def SizeofInotifyEvent_def d2)
  have "bufferItem (appended w1 (encode long_delete)) = bufferItem w1 + 272"
    by (simp add: appended_def long_lengths)
  moreover have "bufferItem w1 = 96"
    using b1 \<open>bufferItem watcher1_over = 352\<close> by (simp add: long_lengths)
  ultimately have 4: "unat (bufferItem (appended w1 (encode long_delete))) = 368"
    by simp
  show ?thesis using 1 fb u1 2 4 by blast
qed

section \<open>Properties of the buffer across parses and reads\<close>


















section \<open>Properties of registration\<close>

lemma with_entry_simps:
  "with_entry (with_entry w k e) k e' = with_entry w k e'"
  "watchMap (with_entry w k e) = (watchMap w)(k \<mapsto> e)"
  "inotifyFD (with_entry w k e) = inotifyFD w"
  "watchMap w k = Some e \<Longrightarrow> with_entry w k e = w"
  by (simp_all add: with_entry_def map_upd_triv)

lemma newWatchSingle_flags:
  "(newWatchSingle p d k fl)\<lparr>flags := flags (newWatchSingle p d k fl) OR fl\<rparr> =
     newWatchSingle p d k fl"
  by (simp add: newWatchSingle_def)

lemma AddWatch_existing:
  assumes "watchMap w (word_of_int wd) = Some e0" and "registers os (inotifyFD w) p fl wd"
  shows "AddWatch os w p fl =
    (with_entry w (word_of_int wd) (e0\<lparr>flags := flags e0 OR fl\<rparr>), None)"
  using assms by (auto simp: AddWatch_def registers_def Let_def with_entry_def split: sum.splits option.splits)

lemma AddWatch_new:
  assumes "watchMap w (word_of_int wd) = None" and "registers os (inotifyFD w) p fl wd"
  shows "\<exists>ap d. filepath_Abs os p = Inr ap \<and> os_Stat os ap = Some d \<and>
    AddWatch os w p fl =
      (with_entry w (word_of_int wd) (newWatchSingle ap d (word_of_int wd) fl),
       None)"
proof -
  from assms(2) obtain ap d where a: "filepath_Abs os p = Inr ap" "os_Stat os ap = Some d"
    "syscall_InotifyAddWatch os (inotifyFD w) ap (fl OR IN_DONT_FOLLOW OR IN_MASK_ADD) = Inr wd"
    by (auto simp: registers_def split: sum.splits option.splits)
  have "AddWatch os w p fl =
      (with_entry w (word_of_int wd) (newWatchSingle ap d (word_of_int wd) fl),
       None)"
    using a assms(1) by (simp add: AddWatch_def Let_def newWatchSingle_flags with_entry_def)
  then show ?thesis using a by blast
qed

lemma AddWatch_early_existing:
  assumes "watchMap w (word_of_int wd) = Some e0" and "registers_early os (inotifyFD w) p fl wd"
  shows "AddWatch_early os w p fl =
    Inr (with_entry w (word_of_int wd) (e0\<lparr>flags := flags e0 OR fl\<rparr>), None)"
  using assms by (auto simp: AddWatch_early_def registers_early_def Let_def with_entry_def)

lemma AddWatch_early_new:
  assumes "watchMap w (word_of_int wd) = None" and "registers_early os (inotifyFD w) p fl wd"
  shows "\<exists>d. os_Stat os p = Some d \<and>
    AddWatch_early os w p fl =
      Inr (with_entry w (word_of_int wd) (newWatchSingle p d (word_of_int wd) fl),
           None)"
proof -
  from assms(2) obtain d where a: "os_Stat os p = Some d"
    "syscall_InotifyAddWatch os (inotifyFD w) p (fl OR IN_DONT_FOLLOW OR IN_MASK_ADD) = Inr wd"
    by (auto simp: registers_early_def)
  have "AddWatch_early os w p fl =
      Inr (with_entry w (word_of_int wd) (newWatchSingle p d (word_of_int wd) fl),
           None)"
    using a assms(1) by (simp add: AddWatch_early_def Let_def newWatchSingle_flags with_entry_def)
  then show ?thesis using a by blast
qed

lemma AddWatch_failure:
  "snd (AddWatch os w p fl) \<noteq> None \<Longrightarrow> fst (AddWatch os w p fl) = w"
  by (auto simp: AddWatch_def Let_def split: sum.splits option.splits)

lemma AddWatch_early_failure:
  "AddWatch_early os w p fl = Inr (w', Some err) \<Longrightarrow> w' = w"
  by (auto simp: AddWatch_early_def Let_def split: sum.splits option.splits)

lemma AddWatch_all_existing:
  assumes "watchMap w (word_of_int wd) = Some e0"
    and "\<forall>(os, fl)\<in>set calls. registers os (inotifyFD w) p fl wd"
  shows "AddWatch_all w p calls =
    (with_entry w (word_of_int wd) (e0\<lparr>flags := flags e0 OR flags_union (map snd calls)\<rparr>),
     map (\<lambda>c. None) calls)"
  using assms
proof (induction calls arbitrary: w e0)
  case Nil
  then show ?case by (simp add: flags_union_def with_entry_simps)
next
  case (Cons c calls)
  obtain os fl where c: "c = (os, fl)" by (cases c)
  let ?e1 = "e0\<lparr>flags := flags e0 OR fl\<rparr>"
  let ?w1 = "with_entry w (word_of_int wd) (?e1)"
  have step: "AddWatch os w p fl = (?w1, None)"
    using Cons.prems c by (intro AddWatch_existing) auto
  let ?u = "flags_union (map snd calls)"
  have fu: "flags_union (fl # map snd calls) = fl OR ?u"
    by (simp add: flags_union_def)
  have "AddWatch_all ?w1 p calls =
    (with_entry ?w1 (word_of_int wd) (?e1\<lparr>flags := flags ?e1 OR ?u\<rparr>),
     map (\<lambda>c. None) calls)"
    using Cons.prems by (intro Cons.IH) (auto simp: with_entry_simps)
  then have ih: "AddWatch_all ?w1 p calls =
    (with_entry w (word_of_int wd) (e0\<lparr>flags := flags e0 OR (fl OR ?u)\<rparr>),
     map (\<lambda>c. None) calls)"
    by (simp add: or.assoc with_entry_simps)
  have "AddWatch_all w p ((os, fl) # calls) =
    (with_entry w (word_of_int wd) (e0\<lparr>flags := flags e0 OR (fl OR ?u)\<rparr>),
     None # map (\<lambda>c. None) calls)"
    by (simp add: step ih)
  then show ?case
    by (simp add: c fu)
qed

lemma AddWatch_early_all_existing:
  assumes "watchMap w (word_of_int wd) = Some e0"
    and "\<forall>(os, fl)\<in>set calls. registers_early os (inotifyFD w) p fl wd"
  shows "AddWatch_early_all w p calls =
    Inr (with_entry w (word_of_int wd) (e0\<lparr>flags := flags e0 OR flags_union (map snd calls)\<rparr>),
     map (\<lambda>c. None) calls)"
  using assms
proof (induction calls arbitrary: w e0)
  case Nil
  then show ?case by (simp add: flags_union_def with_entry_simps)
next
  case (Cons c calls)
  obtain os fl where c: "c = (os, fl)" by (cases c)
  let ?e1 = "e0\<lparr>flags := flags e0 OR fl\<rparr>"
  let ?w1 = "with_entry w (word_of_int wd) (?e1)"
  have step: "AddWatch_early os w p fl = Inr (?w1, None)"
    using Cons.prems c by (intro AddWatch_early_existing) auto
  let ?u = "flags_union (map snd calls)"
  have fu: "flags_union (fl # map snd calls) = fl OR ?u"
    by (simp add: flags_union_def)
  have "AddWatch_early_all ?w1 p calls =
    Inr (with_entry ?w1 (word_of_int wd) (?e1\<lparr>flags := flags ?e1 OR ?u\<rparr>),
     map (\<lambda>c. None) calls)"
    using Cons.prems by (intro Cons.IH) (auto simp: with_entry_simps)
  then have ih: "AddWatch_early_all ?w1 p calls =
    Inr (with_entry w (word_of_int wd) (e0\<lparr>flags := flags e0 OR (fl OR ?u)\<rparr>),
     map (\<lambda>c. None) calls)"
    by (simp add: or.assoc with_entry_simps)
  have "AddWatch_early_all w p ((os, fl) # calls) =
    Inr (with_entry w (word_of_int wd) (e0\<lparr>flags := flags e0 OR (fl OR ?u)\<rparr>),
     None # map (\<lambda>c. None) calls)"
    by (simp add: step ih)
  then show ?case
    by (simp add: c fu)
qed

lemma newWatchSingle_merge:
  "(newWatchSingle p d k fl)\<lparr>flags := flags (newWatchSingle p d k fl) OR u\<rparr> =
     newWatchSingle p d k (fl OR u)"
  by (simp add: newWatchSingle_def)

lemma AddWatch_all_result:
  assumes ne: "calls \<noteq> []"
    and ok: "\<forall>(os, fl)\<in>set calls. registers os (inotifyFD w) p fl wd"
  shows "\<exists>e. merged_entry w (word_of_int wd) (flags_union (map snd calls))
          (stat_abs (fst (hd calls)) p) = Some e \<and>
      AddWatch_all w p calls = (with_entry w (word_of_int wd) e, map (\<lambda>c. None) calls)"
proof (cases "watchMap w (word_of_int wd)")
  case (Some e0)
  then show ?thesis
    using AddWatch_all_existing [OF Some ok] by (simp add: merged_entry_def)
next
  case None
  obtain os fl cs where calls: "calls = (os, fl) # cs"
    using ne by (cases calls) auto
  have ok0: "registers os (inotifyFD w) p fl wd"
    using ok calls by auto
  from AddWatch_new [OF None ok0] obtain ap d where
    a: "filepath_Abs os p = Inr ap" "os_Stat os ap = Some d"
    "AddWatch os w p fl = (with_entry w (word_of_int wd) (newWatchSingle ap d (word_of_int wd) fl), None)"
    by blast
  let ?e0 = "newWatchSingle ap d (word_of_int wd) fl"
  let ?w1 = "with_entry w (word_of_int wd) ?e0"
  have "AddWatch_all ?w1 p cs =
      (with_entry ?w1 (word_of_int wd) (?e0\<lparr>flags := flags ?e0 OR flags_union (map snd cs)\<rparr>),
       map (\<lambda>c. None) cs)"
    using ok calls by (intro AddWatch_all_existing) (auto simp: with_entry_simps)
  then have rest: "AddWatch_all ?w1 p cs =
      (with_entry w (word_of_int wd)
         (newWatchSingle ap d (word_of_int wd) (fl OR flags_union (map snd cs))),
       map (\<lambda>c. None) cs)"
    by (simp add: with_entry_simps newWatchSingle_merge)
  have "AddWatch_all w p ((os, fl) # cs) =
      (with_entry w (word_of_int wd)
         (newWatchSingle ap d (word_of_int wd) (fl OR flags_union (map snd cs))),
       None # map (\<lambda>c. None) cs)"
    by (simp add: a(3) rest)
  moreover have "merged_entry w (word_of_int wd) (flags_union (map snd calls))
      (stat_abs (fst (hd calls)) p) =
      Some (newWatchSingle ap d (word_of_int wd) (fl OR flags_union (map snd cs)))"
    using None a(1,2) by (simp add: merged_entry_def stat_abs_def calls flags_union_def)
  ultimately show ?thesis
    by (simp add: calls)
qed

lemma AddWatch_early_all_result:
  assumes ne: "calls \<noteq> []"
    and ok: "\<forall>(os, fl)\<in>set calls. registers_early os (inotifyFD w) p fl wd"
  shows "\<exists>e. merged_entry w (word_of_int wd) (flags_union (map snd calls))
          (stat_given (fst (hd calls)) p) = Some e \<and>
      AddWatch_early_all w p calls = Inr (with_entry w (word_of_int wd) e, map (\<lambda>c. None) calls)"
proof (cases "watchMap w (word_of_int wd)")
  case (Some e0)
  then show ?thesis
    using AddWatch_early_all_existing [OF Some ok] by (simp add: merged_entry_def)
next
  case None
  obtain os fl cs where calls: "calls = (os, fl) # cs"
    using ne by (cases calls) auto
  have ok0: "registers_early os (inotifyFD w) p fl wd"
    using ok calls by auto
  from AddWatch_early_new [OF None ok0] obtain d where
    a: "os_Stat os p = Some d"
    "AddWatch_early os w p fl =
       Inr (with_entry w (word_of_int wd) (newWatchSingle p d (word_of_int wd) fl), None)"
    by blast
  let ?e0 = "newWatchSingle p d (word_of_int wd) fl"
  let ?w1 = "with_entry w (word_of_int wd) ?e0"
  have "AddWatch_early_all ?w1 p cs =
      Inr (with_entry ?w1 (word_of_int wd) (?e0\<lparr>flags := flags ?e0 OR flags_union (map snd cs)\<rparr>),
       map (\<lambda>c. None) cs)"
    using ok calls by (intro AddWatch_early_all_existing) (auto simp: with_entry_simps)
  then have rest: "AddWatch_early_all ?w1 p cs =
      Inr (with_entry w (word_of_int wd)
         (newWatchSingle p d (word_of_int wd) (fl OR flags_union (map snd cs))),
       map (\<lambda>c. None) cs)"
    by (simp add: with_entry_simps newWatchSingle_merge)
  have "AddWatch_early_all w p ((os, fl) # cs) =
      Inr (with_entry w (word_of_int wd)
         (newWatchSingle p d (word_of_int wd) (fl OR flags_union (map snd cs))),
       None # map (\<lambda>c. None) cs)"
    by (simp add: a(2) rest)
  moreover have "merged_entry w (word_of_int wd) (flags_union (map snd calls))
      (stat_given (fst (hd calls)) p) =
      Some (newWatchSingle p d (word_of_int wd) (fl OR flags_union (map snd cs)))"
    using None a(1) by (simp add: merged_entry_def stat_given_def calls flags_union_def)
  ultimately show ?thesis
    by (simp add: calls)
qed

text \<open>
  C4.  A non-empty sequence of \<^verbatim>\<open>AddWatch\<close> calls on one path, each succeeding
  with the same identifier, returns no error and changes the registry at that
  identifier only: it holds one entry there, the one that was there or a new one
  for the path, whose flags are the union of the flags it had and all flags
  requested.  This holds for both revisions.  A call that returns an error
  leaves the Watcher as it was.
\<close>

theorem AddWatch_same_path_merges_flags:
  assumes "calls \<noteq> []"
  shows
    "((\<forall>(os, fl)\<in>set calls. registers os (inotifyFD w) p fl wd) \<longrightarrow>
        (\<exists>w' e. AddWatch_all w p calls = (w', map (\<lambda>c. None) calls) \<and>
           watchMap w' = (watchMap w)(word_of_int wd \<mapsto> e) \<and>
           merged_entry w (word_of_int wd) (flags_union (map snd calls))
             (stat_abs (fst (hd calls)) p) = Some e \<and>
           flags e = (case watchMap w (word_of_int wd) of None \<Rightarrow> 0 | Some e0 \<Rightarrow> flags e0)
                       OR flags_union (map snd calls))) \<and>
     ((\<forall>(os, fl)\<in>set calls. registers_early os (inotifyFD w) p fl wd) \<longrightarrow>
        (\<exists>w' e. AddWatch_early_all w p calls = Inr (w', map (\<lambda>c. None) calls) \<and>
           watchMap w' = (watchMap w)(word_of_int wd \<mapsto> e) \<and>
           merged_entry w (word_of_int wd) (flags_union (map snd calls))
             (stat_given (fst (hd calls)) p) = Some e \<and>
           flags e = (case watchMap w (word_of_int wd) of None \<Rightarrow> 0 | Some e0 \<Rightarrow> flags e0)
                       OR flags_union (map snd calls))) \<and>
     (\<forall>os fl. snd (AddWatch os w p fl) \<noteq> None \<longrightarrow> fst (AddWatch os w p fl) = w) \<and>
     (\<forall>os fl w' err. AddWatch_early os w p fl = Inr (w', Some err) \<longrightarrow> w' = w)"
proof -
  have fl: "flags e = (case watchMap w k of None \<Rightarrow> 0 | Some e0 \<Rightarrow> flags e0) OR u"
    if "merged_entry w k u new = Some e" for e k u new
    using that
    by (auto simp: merged_entry_def newWatchSingle_def split: option.splits)
  have 1: "\<exists>w' e. AddWatch_all w p calls = (w', map (\<lambda>c. None) calls) \<and>
           watchMap w' = (watchMap w)(word_of_int wd \<mapsto> e) \<and>
           merged_entry w (word_of_int wd) (flags_union (map snd calls))
             (stat_abs (fst (hd calls)) p) = Some e \<and>
           flags e = (case watchMap w (word_of_int wd) of None \<Rightarrow> 0 | Some e0 \<Rightarrow> flags e0)
                       OR flags_union (map snd calls)"
    if ok: "\<forall>(os, fl)\<in>set calls. registers os (inotifyFD w) p fl wd"
  proof -
    from AddWatch_all_result [OF assms ok] obtain e where
      e: "merged_entry w (word_of_int wd) (flags_union (map snd calls))
          (stat_abs (fst (hd calls)) p) = Some e"
      "AddWatch_all w p calls = (with_entry w (word_of_int wd) e, map (\<lambda>c. None) calls)"
      by blast
    show ?thesis
      using e fl [OF e(1)]
      by (intro exI [of _ "with_entry w (word_of_int wd) e"] exI [of _ e])
        (simp add: with_entry_simps)
  qed
  have 2: "\<exists>w' e. AddWatch_early_all w p calls = Inr (w', map (\<lambda>c. None) calls) \<and>
           watchMap w' = (watchMap w)(word_of_int wd \<mapsto> e) \<and>
           merged_entry w (word_of_int wd) (flags_union (map snd calls))
             (stat_given (fst (hd calls)) p) = Some e \<and>
           flags e = (case watchMap w (word_of_int wd) of None \<Rightarrow> 0 | Some e0 \<Rightarrow> flags e0)
                       OR flags_union (map snd calls)"
    if ok: "\<forall>(os, fl)\<in>set calls. registers_early os (inotifyFD w) p fl wd"
  proof -
    from AddWatch_early_all_result [OF assms ok] obtain e where
      e: "merged_entry w (word_of_int wd) (flags_union (map snd calls))
          (stat_given (fst (hd calls)) p) = Some e"
      "AddWatch_early_all w p calls =
         Inr (with_entry w (word_of_int wd) e, map (\<lambda>c. None) calls)"
      by blast
    show ?thesis
      using e fl [OF e(1)]
      by (intro exI [of _ "with_entry w (word_of_int wd) e"] exI [of _ e])
        (simp add: with_entry_simps)
  qed
  show ?thesis
    using 1 2 AddWatch_failure AddWatch_early_failure by blast
qed

theorem AddWatch_same_path_merges_flags_witness:
  "(\<exists>w'. AddWatch_all watcher34 ''/tmp/d'' [(os_tmp, IN_CREATE), (os_tmp, IN_DELETE)] =
       (w', [None, None]) \<and> watchMap w' = [1 \<mapsto> entry1]) \<and>
   (\<exists>w'. AddWatch_early_all watcher34 ''/tmp/d'' [(os_tmp, IN_CREATE), (os_tmp, IN_DELETE)] =
       Inr (w', [None, None]) \<and> watchMap w' = [1 \<mapsto> entry1]) \<and>
   AddWatch os_tmp watcher34 ''/tmp/x'' IN_CREATE = (watcher34, Some (New ''File or Dir not'')) \<and>
   AddWatch_early os_tmp watcher34 ''/tmp/x'' IN_CREATE = Inr (watcher34, Some (Errno 2))"
proof -
  let ?calls = "[(os_tmp, IN_CREATE), (os_tmp, IN_DELETE)]"
  have ne: "?calls \<noteq> []" by simp
  have ok: "\<forall>(os, fl)\<in>set ?calls. registers os (inotifyFD watcher34) ''/tmp/d'' fl 1"
    "\<forall>(os, fl)\<in>set ?calls. registers_early os (inotifyFD watcher34) ''/tmp/d'' fl 1"
    by (auto simp: registers_def registers_early_def os_tmp_def)
  have m: "merged_entry watcher34 (word_of_int 1) (flags_union (map snd ?calls))
      (stat_abs (fst (hd ?calls)) ''/tmp/d'') = Some entry1"
    "merged_entry watcher34 (word_of_int 1) (flags_union (map snd ?calls))
      (stat_given (fst (hd ?calls)) ''/tmp/d'') = Some entry1"
    by (simp_all add: merged_entry_def stat_abs_def stat_given_def os_tmp_def watcher34_def
        flags_union_def entry1_def)
  have empty: "(watchMap watcher34)(word_of_int 1 \<mapsto> entry1) = [1 \<mapsto> entry1]"
    by (simp add: watcher34_def)
  note inst = AddWatch_same_path_merges_flags [OF ne, of watcher34 "''/tmp/d''" 1]
  have 1: "\<exists>w'. AddWatch_all watcher34 ''/tmp/d'' ?calls = (w', [None, None]) \<and>
      watchMap w' = [1 \<mapsto> entry1]"
    using inst ok(1) m(1) empty by auto
  have 2: "\<exists>w'. AddWatch_early_all watcher34 ''/tmp/d'' ?calls = Inr (w', [None, None]) \<and>
      watchMap w' = [1 \<mapsto> entry1]"
    using inst ok(2) m(2) empty by auto
  have 3: "AddWatch os_tmp watcher34 ''/tmp/x'' IN_CREATE =
      (watcher34, Some (New ''File or Dir not''))"
    by (simp add: AddWatch_def os_tmp_def)
  have 4: "AddWatch_early os_tmp watcher34 ''/tmp/x'' IN_CREATE = Inr (watcher34, Some (Errno 2))"
    by (simp add: AddWatch_early_def os_tmp_def)
  show ?thesis using 1 2 3 4 by blast
qed

section \<open>Properties of Close\<close>

lemma NewWatcher_34: "NewWatcher 3 4 None = (Inr watcher34, [])"
  by (simp add: NewWatcher_def watcher34_def)

text \<open>
  C7.  \<^verbatim>\<open>Close\<close> leaves both descriptor fields as they were, so a second call
  passes the guards again and closes both descriptors a second time.
\<close>

theorem Close_twice_closes_again:
  "Close watcher34 = (watcher34, [Sys_Close 3, Sys_Close 4]) \<and>
   Close (fst (Close watcher34)) = (watcher34, [Sys_Close 3, Sys_Close 4])"
  by (simp add: Close_def watcher34_def)

end
